theory Spec2Isabelle
  imports Complex_Main "HOL-Library.Sublist"
begin

section \<open>The continuous view manager of epub.js\<close>

text \<open>
  A shallow embedding of \<^verbatim>\<open>src/managers/continuous/index.js\<close>
  (class \<^verbatim>\<open>ContinuousViewManager\<close>). JavaScript numbers are modelled as
  real numbers, \<^verbatim>\<open>Math.floor\<close> as the floor function, and an
  optional value (\<^verbatim>\<open>undefined\<close>) as \<open>None\<close>. Asynchronous code is
  sequentialised: a promise is the value it settles to, and a task put on the queue
  \<^verbatim>\<open>this.q\<close> is an entry appended to a list of pending tasks.
\<close>

subsection \<open>Settings objects handled by the constructor\<close>

datatype jsval = JUndefined | JNull | JBool bool | JNum real | JStr string

type_synonym jsobj = "string \<rightharpoonup> jsval"

datatype error = TypeError

record options =
  opt_settings :: "jsobj option"

text \<open>Reading a property: a missing property reads as \<^verbatim>\<open>undefined\<close>.\<close>

definition get_prop :: "jsobj \<Rightarrow> string \<Rightarrow> jsval" where
  "get_prop obj k = (case obj k of None \<Rightarrow> JUndefined | Some v \<Rightarrow> v)"

text \<open>
  The loose comparison \<^verbatim>\<open>v != 'undefined'\<close> against the string literal.
  The string \<^verbatim>\<open>'undefined'\<close> converts to NaN, so a number, a boolean,
  \<^verbatim>\<open>null\<close> and \<^verbatim>\<open>undefined\<close> are all unequal to it; only the
  same string is equal.
\<close>

definition neq_undefined_string :: "jsval \<Rightarrow> bool" where
  "neq_undefined_string v = (case v of JStr s \<Rightarrow> s \<noteq> ''undefined'' | _ \<Rightarrow> True)"

text \<open>The object literal of defaults at lines 13-25.\<close>

definition continuous_defaults :: jsobj where
  "continuous_defaults = map_of
     [(''infinite'', JBool True),
      (''overflow'', JUndefined),
      (''axis'', JUndefined),
      (''writingMode'', JUndefined),
      (''flow'', JStr ''scrolled''),
      (''offset'', JNum 500),
      (''offsetDelta'', JNum 250),
      (''width'', JUndefined),
      (''height'', JUndefined),
      (''snap'', JBool False),
      (''afterScrolledTimeout'', JNum 10)]"

text \<open>
  The settings computed by the constructor (lines 8-32). \<open>ext\<close> stands for \<^verbatim>\<open>extend\<close>, imported from
  \<^verbatim>\<open>utils/core\<close> and \<open>base\<close> is what the constructor of the base class left in
  \<^verbatim>\<open>this.settings\<close>; neither is part of the sources at hand, so both are
  parameters. Line 30 reads \<^verbatim>\<open>options.settings.gap\<close> without the guard of
  line 27, which throws a TypeError when \<^verbatim>\<open>options.settings\<close> is undefined.
\<close>

definition constructor_settings ::
  "(jsobj \<Rightarrow> jsobj \<Rightarrow> jsobj) \<Rightarrow> jsobj option \<Rightarrow> options \<Rightarrow> error + jsobj" where
  "constructor_settings ext base opts =
     (let s1 = ext (case base of None \<Rightarrow> Map.empty | Some b \<Rightarrow> b) continuous_defaults;
          s2 = ext s1 (case opt_settings opts of None \<Rightarrow> Map.empty | Some os \<Rightarrow> os)
      in case opt_settings opts of
           None \<Rightarrow> Inl TypeError
         | Some os \<Rightarrow>
             if neq_undefined_string (get_prop os ''gap'') \<and> get_prop os ''gap'' = JNum 0
             then Inr (s2(''gap'' \<mapsto> get_prop os ''gap''))
             else Inr s2)"

subsection \<open>State of the manager\<close>

text \<open>
  The numbers the manager reads from itself and from the browser: its tracked scroll
  position (\<^verbatim>\<open>this.scrollLeft\<close>, \<^verbatim>\<open>this.scrollTop\<close>), the saved bounds
  \<^verbatim>\<open>this._bounds\<close>, the scroll position and scroll extent of the container
  element, and the scroll position of the window.
\<close>

record geometry =
  scrollLeft :: real
  scrollTop :: real
  bounds_width :: real
  bounds_height :: real
  container_scrollLeft :: real
  container_scrollTop :: real
  container_scrollWidth :: real
  container_scrollHeight :: real
  window_scrollX :: real
  window_scrollY :: real

record mgr_settings =
  axis :: "string option"
  direction :: "string option"
  rtlScrollType :: "string option"
  fullsize :: bool
  offset :: "real option"

text \<open>
  \<^verbatim>\<open>layout.props.name\<close>, \<^verbatim>\<open>layout.props.spread\<close> (its truthiness),
  \<^verbatim>\<open>layout.props.delta\<close> and \<^verbatim>\<open>layout.height\<close>.
\<close>

record mgr_layout =
  layout_name :: "string option"
  spread :: bool
  delta :: real
  layout_height :: real

text \<open>
  A view: \<open>vid\<close> stands for the identity of the JavaScript object, \<open>vsection\<close> is the
  index of its section in the document, \<open>width\<close> and \<open>height\<close> are what
  \<^verbatim>\<open>view.bounds()\<close> reports.
\<close>

record view =
  vid :: nat
  vsection :: nat
  displayed :: bool
  shown :: bool
  width :: real
  height :: real

text \<open>Tasks waiting on the queue \<^verbatim>\<open>this.q\<close>.\<close>

datatype task = TaskCheck | TaskUpdate | TaskTrim | TaskDestroy nat

text \<open>
  \<open>trimTimeout\<close> is the timer whose handle is kept in \<^verbatim>\<open>this.trimTimeout\<close>:
  \<open>Some d\<close> when a timer is armed that will, after \<open>d\<close> time units, put
  \<^verbatim>\<open>trim\<close> on the queue, \<open>None\<close> when there is none.
\<close>

record manager =
  settings :: mgr_settings
  writingMode :: "string option"
  geom :: geometry
  layout :: mgr_layout
  isPaginated :: bool
  views :: "view list"
  q :: "task list"
  trimTimeout :: "nat option"
  nextId :: nat

subsection \<open>check: lookahead margin and scroll normalisation\<close>

text \<open>Truthiness of an optional number: \<^verbatim>\<open>undefined\<close> and 0 are falsy.\<close>

definition truthy_num :: "real option \<Rightarrow> bool" where
  "truthy_num x = (case x of None \<Rightarrow> False | Some v \<Rightarrow> v \<noteq> 0)"

text \<open>\<^verbatim>\<open>x || 0\<close> for an optional number.\<close>

definition or_zero :: "real option \<Rightarrow> real" where
  "or_zero x = (case x of None \<Rightarrow> 0 | Some v \<Rightarrow> if v \<noteq> 0 then v else 0)"

definition horizontal :: "manager \<Rightarrow> bool" where
  "horizontal st = (axis (settings st) = Some ''horizontal'')"

text \<open>Lines 240-249 of \<^verbatim>\<open>check\<close>: the margin \<^verbatim>\<open>delta\<close>.\<close>

definition check_delta :: "manager \<Rightarrow> real option \<Rightarrow> real option \<Rightarrow> real" where
  "check_delta st offsetLeft offsetTop =
     (let d0 = or_zero (offset (settings st));
          d1 = (if truthy_num offsetLeft \<and> horizontal st then the offsetLeft else d0);
          d2 = (if truthy_num offsetTop \<and> \<not> horizontal st then the offsetTop else d1)
      in d2)"

text \<open>Line 254 and line 255.\<close>

definition visibleLength :: "manager \<Rightarrow> real" where
  "visibleLength st =
     (if horizontal st then of_int \<lfloor>bounds_width (geom st)\<rfloor> else bounds_height (geom st))"

definition contentLength :: "manager \<Rightarrow> real" where
  "contentLength st =
     (if horizontal st then container_scrollWidth (geom st)
      else container_scrollHeight (geom st))"

text \<open>Line 253: the raw offset, before normalisation.\<close>

definition raw_offset :: "manager \<Rightarrow> real" where
  "raw_offset st = (if horizontal st then scrollLeft (geom st) else scrollTop (geom st))"

text \<open>
  Line 256: the writing mode counts as vertical when \<^verbatim>\<open>this.writingMode\<close> is a
  string that starts with \<^verbatim>\<open>vertical\<close>, as horizontal otherwise.
\<close>

definition writing_vertical :: "manager \<Rightarrow> bool" where
  "writing_vertical st =
     (case writingMode st of None \<Rightarrow> False | Some w \<Rightarrow> prefix ''vertical'' w)"

definition rtl :: "manager \<Rightarrow> bool" where
  "rtl st = (direction (settings st) = Some ''rtl'')"

text \<open>Lines 253-275 of \<^verbatim>\<open>check\<close>: the normalised scroll offset.\<close>

definition check_offset :: "manager \<Rightarrow> real" where
  "check_offset st =
     (let rtlScroll = rtlScrollType (settings st);
          o0 = raw_offset st
      in if \<not> fullsize (settings st) then
           (let o1 = (if rtl st \<and> rtlScroll = Some ''default'' \<and> \<not> writing_vertical st
                      then contentLength st - visibleLength st - o0 else o0);
                o2 = (if rtl st \<and> rtlScroll = Some ''negative'' \<and> \<not> writing_vertical st
                      then o1 * (- 1) else o1)
            in o2)
         else
           (if (horizontal st \<and> rtl st \<and> rtlScroll = Some ''negative'') \<or>
               (\<not> horizontal st \<and> rtl st \<and> rtlScroll = Some ''default'')
            then o0 * (- 1) else o0))"

subsection \<open>Promises\<close>

text \<open>
  How a promise settles. \<^verbatim>\<open>p.then(f, g)\<close> with two handlers that do not throw
  is fulfilled whether \<open>p\<close> is fulfilled or rejected; \<^verbatim>\<open>Promise.all\<close> is
  fulfilled when every member is, and rejected otherwise.
\<close>

datatype settlement = Fulfilled | Rejected

fun then_both :: "settlement \<Rightarrow> settlement" where
  "then_both Fulfilled = Fulfilled"
| "then_both Rejected = Fulfilled"

definition promise_all :: "settlement list \<Rightarrow> settlement" where
  "promise_all ps = (if list_all (\<lambda>p. p = Fulfilled) ps then Fulfilled else Rejected)"

subsection \<open>Collaborators that are outside the sources at hand\<close>

text \<open>
  What the manager cannot decide by itself is collected in a record of oracles:
  \<open>spine_length\<close> is the number of sections of the document; \<open>request\<close> tells, for
  a section index, whether rendering that section succeeds (the display promise
  resolves) or fails (it rejects); \<open>relayout\<close> is the geometry the browser reports
  once it has laid out a given window; \<open>isVisible\<close> is the verdict of the inherited
  method \<^verbatim>\<open>isVisible(view, offsetPrev, offsetNext, container)\<close> under a given
  geometry; \<open>measured\<close> is the extent (width, height) a new view of a section reports;
  \<open>settle_time\<close> is the time, counted from the call of \<^verbatim>\<open>display\<close>, at which
  the display promise of a section settles.
\<close>

record world =
  spine_length :: nat
  request :: "nat \<Rightarrow> bool"
  relayout :: "view list \<Rightarrow> geometry"
  isVisible :: "geometry \<Rightarrow> view \<Rightarrow> real \<Rightarrow> real \<Rightarrow> bool"
  measured :: "nat \<Rightarrow> real \<times> real"
  settle_time :: "nat \<Rightarrow> nat"

text \<open>
  Modelled from the spec: the class \<^verbatim>\<open>Section\<close> is missing from the sources.
  \<^verbatim>\<open>Section.next()\<close> gives the logically adjacent section after this one, or
  none at the end of the document. Sections are numbered from 0 to \<open>n - 1\<close>.
\<close>

definition section_next :: "nat \<Rightarrow> nat \<Rightarrow> nat option" where
  "section_next n i = (if i + 1 < n then Some (i + 1) else None)"

text \<open>
  Modelled from the spec: the class \<^verbatim>\<open>Section\<close> is missing from the sources.
  \<^verbatim>\<open>Section.prev()\<close> gives the logically adjacent section before this one, or
  none at the start of the document.
\<close>

definition section_prev :: "nat \<Rightarrow> nat option" where
  "section_prev i = (if 0 < i then Some (i - 1) else None)"

text \<open>
  Modelled from the spec: the view class is missing from the sources.
  \<^verbatim>\<open>View.display(request)\<close> resolves once the content is in the render tree and
  rejects on render failure; the attribute \<open>displayed\<close> records that a render was
  attempted. The first component of \<open>view_display\<close> is how the promise settles.
\<close>

definition view_display :: "world \<Rightarrow> view \<Rightarrow> settlement \<times> view" where
  "view_display w v =
     (if request w (vsection v) then Fulfilled else Rejected, v\<lparr>displayed := True\<rparr>)"

text \<open>
  Modelled from the spec: the view class is missing from the sources.
  \<^verbatim>\<open>View.show()\<close> makes the view visually active: it sets \<open>shown\<close>.
\<close>

definition view_show :: "view \<Rightarrow> view" where
  "view_show v = v\<lparr>shown := True\<rparr>"

text \<open>
  Modelled from the spec: the view class is missing from the sources.
  \<^verbatim>\<open>View.hide()\<close> clears \<open>shown\<close>.
\<close>

definition view_hide :: "view \<Rightarrow> view" where
  "view_hide v = v\<lparr>shown := False\<rparr>"

text \<open>
  Modelled from the spec: \<^verbatim>\<open>createView\<close> belongs to the base manager, which is
  missing from the sources. It makes a new view object for a section, neither displayed
  nor shown. \<open>nextId\<close> supplies the identity of the new object.
\<close>

definition createView :: "world \<Rightarrow> nat \<Rightarrow> manager \<Rightarrow> view \<times> manager" where
  "createView w s st =
     (\<lparr>vid = nextId st, vsection = s, displayed = False, shown = False,
       width = fst (measured w s), height = snd (measured w s)\<rparr>,
      st\<lparr>nextId := nextId st + 1\<rparr>)"

text \<open>
  The collection class of the window (\<^verbatim>\<open>this.views\<close>) is missing from the
  sources. The spec describes it as an ordered sequence of views with positional
  queries; the definitions below take it to be a JavaScript array of view objects.
  Views are compared by object identity, indices and slices follow JavaScript arrays
  (\<open>-1\<close> for an absent element, negative slice bounds counted from the end).
\<close>

text \<open>
  Modelled from the spec: \<^verbatim>\<open>views.first()\<close> of the missing collection class,
  the first view of the window or \<^verbatim>\<open>undefined\<close>.
\<close>

definition views_first :: "view list \<Rightarrow> view option" where
  "views_first vs = (case vs of [] \<Rightarrow> None | v # _ \<Rightarrow> Some v)"

text \<open>
  Modelled from the spec: \<^verbatim>\<open>views.last()\<close> of the missing collection class,
  the last view of the window or \<^verbatim>\<open>undefined\<close>.
\<close>

definition views_last :: "view list \<Rightarrow> view option" where
  "views_last vs = (if vs = [] then None else Some (last vs))"

text \<open>
  Modelled from the spec: \<^verbatim>\<open>views.displayed()\<close> of the missing collection
  class, the views whose \<open>displayed\<close> attribute is set, in window order.
\<close>

definition views_displayed :: "view list \<Rightarrow> view list" where
  "views_displayed vs = filter displayed vs"

text \<open>
  Modelled from the spec: the search behind \<^verbatim>\<open>views.indexOf\<close> of the missing
  collection class: the index, counted from \<open>i\<close>, of the first view with the identity
  \<open>x\<close>, or \<open>-1\<close>.
\<close>

fun index_from :: "nat \<Rightarrow> nat \<Rightarrow> view list \<Rightarrow> int" where
  "index_from x i [] = - 1"
| "index_from x i (v # vs) = (if vid v = x then int i else index_from x (Suc i) vs)"

text \<open>
  Modelled from the spec: \<^verbatim>\<open>views.indexOf(view)\<close> of the missing collection
  class. The argument is \<^verbatim>\<open>undefined\<close> when \<^verbatim>\<open>trim\<close> found no displayed
  view; no element of the window is \<^verbatim>\<open>undefined\<close>.
\<close>

definition views_indexOf :: "view option \<Rightarrow> view list \<Rightarrow> int" where
  "views_indexOf x vs = (case x of None \<Rightarrow> - 1 | Some v \<Rightarrow> index_from (vid v) 0 vs)"

text \<open>Reading \<^verbatim>\<open>xs[i]\<close> from a JavaScript array: out of range it is undefined.\<close>

definition js_index :: "'a list \<Rightarrow> int \<Rightarrow> 'a option" where
  "js_index xs i = (if 0 \<le> i \<and> i < int (length xs) then Some (xs ! nat i) else None)"

text \<open>
  A bound of \<^verbatim>\<open>Array.prototype.slice\<close>: a negative bound counts from the end,
  and the result is clamped to the array.
\<close>

definition js_bound :: "nat \<Rightarrow> int \<Rightarrow> nat" where
  "js_bound len i = (if i < 0 then nat (max (int len + i) 0) else min (nat i) len)"

text \<open>
  Modelled from the spec: \<^verbatim>\<open>views.slice(start, end)\<close> of the missing collection
  class, taken to be \<^verbatim>\<open>Array.prototype.slice\<close> on the array of views.
\<close>

definition js_slice :: "'a list \<Rightarrow> int \<Rightarrow> int option \<Rightarrow> 'a list" where
  "js_slice xs start fin =
     (let k = js_bound (length xs) start;
          e = (case fin of None \<Rightarrow> length xs | Some f \<Rightarrow> js_bound (length xs) f)
      in take (e - k) (drop k xs))"

text \<open>
  Modelled from the spec: the removal behind \<^verbatim>\<open>views.remove\<close> of the missing
  collection class: the first view with the identity \<open>x\<close> is taken out.
\<close>

fun remove_vid :: "nat \<Rightarrow> view list \<Rightarrow> view list" where
  "remove_vid x [] = []"
| "remove_vid x (v # vs) = (if vid v = x then vs else v # remove_vid x vs)"

text \<open>
  Modelled from the spec: \<^verbatim>\<open>views.remove(view)\<close> of the missing collection
  class removes the view from the window.
\<close>

definition views_remove :: "view \<Rightarrow> view list \<Rightarrow> view list" where
  "views_remove v vs = remove_vid (vid v) vs"

text \<open>
  Modelled from the spec: \<^verbatim>\<open>scrollTo\<close> belongs to the base manager, which is
  missing from the sources. It assigns the scroll position of the scroll owner: the
  window when \<open>fullsize\<close> is set, the container otherwise.
\<close>

definition scrollTo :: "real \<Rightarrow> real \<Rightarrow> manager \<Rightarrow> manager" where
  "scrollTo x y st =
     (if \<not> fullsize (settings st)
      then st\<lparr>geom := (geom st)\<lparr>container_scrollLeft := x, container_scrollTop := y\<rparr>\<rparr>
      else st\<lparr>geom := (geom st)\<lparr>window_scrollX := x, window_scrollY := y\<rparr>\<rparr>)"

text \<open>
  Modelled from the spec: \<^verbatim>\<open>scrollBy\<close> belongs to the base manager, which is
  missing from the sources. It applies the delta as a scroll offset: it adds it to the
  scroll position of the scroll owner.
\<close>

definition scrollBy :: "real \<Rightarrow> real \<Rightarrow> manager \<Rightarrow> manager" where
  "scrollBy x y st =
     (if \<not> fullsize (settings st)
      then st\<lparr>geom := (geom st)\<lparr>container_scrollLeft := container_scrollLeft (geom st) + x,
                                 container_scrollTop := container_scrollTop (geom st) + y\<rparr>\<rparr>
      else st\<lparr>geom := (geom st)\<lparr>window_scrollX := window_scrollX (geom st) + x,
                                 window_scrollY := window_scrollY (geom st) + y\<rparr>\<rparr>)"

text \<open>
  The scroll position of the scroll owner, as lines 357-363 of \<^verbatim>\<open>erase\<close> read
  it.
\<close>

definition owner_left :: "manager \<Rightarrow> real" where
  "owner_left st =
     (if \<not> fullsize (settings st) then container_scrollLeft (geom st)
      else window_scrollX (geom st))"

definition owner_top :: "manager \<Rightarrow> real" where
  "owner_top st =
     (if \<not> fullsize (settings st) then container_scrollTop (geom st)
      else window_scrollY (geom st))"

subsection \<open>Eviction: erase and trim\<close>

text \<open>
  Lines 352-385. The second argument of \<^verbatim>\<open>erase\<close> is the array
  \<^verbatim>\<open>above\<close> or is omitted; only its truthiness is used, and an array is always
  truthy, so it is the boolean \<open>has_above\<close> here.
\<close>

definition erase :: "view \<Rightarrow> bool \<Rightarrow> manager \<Rightarrow> manager" where
  "erase view has_above st =
     (let prevTop = (if \<not> fullsize (settings st) then container_scrollTop (geom st)
                     else window_scrollY (geom st));
          prevLeft = (if \<not> fullsize (settings st) then container_scrollLeft (geom st)
                      else window_scrollX (geom st));
          bounds_w = width view;
          bounds_h = height view;
          st1 = st\<lparr>views := views_remove view (views st)\<rparr>
      in if has_above then
           (if axis (settings st) = Some ''vertical'' then
              scrollTo 0 (prevTop - bounds_h) st1
            else if direction (settings st) = Some ''rtl'' then
              (if \<not> fullsize (settings st) then scrollTo prevLeft 0 st1
               else scrollTo (prevLeft + of_int \<lfloor>bounds_w\<rfloor>) 0 st1)
            else scrollTo (prevLeft - of_int \<lfloor>bounds_w\<rfloor>) 0 st1)
         else st1)"

text \<open>Lines 328-350.\<close>

definition trim :: "manager \<Rightarrow> manager" where
  "trim st =
     (let disp = views_displayed (views st);
          first = js_index disp 0;
          lst = js_index disp (int (length disp) - 1);
          firstIndex = views_indexOf first (views st);
          lastIndex = views_indexOf lst (views st);
          aboves = js_slice (views st) 0 (Some firstIndex);
          belows = js_slice (views st) (lastIndex + 1) None;
          st1 = fold (\<lambda>i s. erase (aboves ! i) True s) [0..<length aboves - 1] st;
          st2 = fold (\<lambda>j s. erase (belows ! j) False s) [1..<length belows] st1
      in st2)"

subsection \<open>Navigation: next and prev\<close>

text \<open>The step computed at lines 515-516 and 537-538.\<close>

definition step_delta :: "manager \<Rightarrow> real" where
  "step_delta st =
     (if layout_name (layout st) = Some ''pre-paginated'' \<and> spread (layout st)
      then delta (layout st) * 2 else delta (layout st))"

text \<open>Lines 513-533 and 535-555.\<close>

definition mgr_next :: "manager \<Rightarrow> manager" where
  "mgr_next st =
     (let d = step_delta st
      in if length (views st) = 0 then st
         else
           (let st1 = (if isPaginated st \<and> axis (settings st) = Some ''horizontal''
                       then scrollBy d 0 st
                       else scrollBy 0 (layout_height (layout st)) st)
            in st1\<lparr>q := q st1 @ [TaskCheck]\<rparr>))"

definition mgr_prev :: "manager \<Rightarrow> manager" where
  "mgr_prev st =
     (let d = step_delta st
      in if length (views st) = 0 then st
         else
           (let st1 = (if isPaginated st \<and> axis (settings st) = Some ''horizontal''
                       then scrollBy (- d) 0 st
                       else scrollBy 0 (- layout_height (layout st)) st)
            in st1\<lparr>q := q st1 @ [TaskCheck]\<rparr>))"

subsection \<open>The visibility pass: update\<close>

text \<open>
  What a promise returned by \<^verbatim>\<open>check\<close> or \<^verbatim>\<open>update\<close> settles to:
  the boolean \<^verbatim>\<open>false\<close>, \<^verbatim>\<open>undefined\<close>, the array that
  \<^verbatim>\<open>Promise.all\<close> yields (with its length), or the reason of a rejection that
  the handler \<^verbatim>\<open>err => err\<close> turned into a value. None of them is a rejected
  promise.
\<close>

datatype result = RFalse | RUndefined | RArray nat | RError

text \<open>
  Truthiness, as \<^verbatim>\<open>if (result)\<close> in \<^verbatim>\<open>fill\<close> tests it. An array is
  truthy; the reason of a failed render is taken to be an error object, which is
  truthy.
\<close>

fun truthy :: "result \<Rightarrow> bool" where
  "truthy RFalse = False"
| "truthy RUndefined = False"
| "truthy (RArray n) = True"
| "truthy RError = True"

text \<open>
  The body of the loop at lines 192-222, for the index \<open>i\<close>, as far as it runs
  synchronously. \<open>g\<close> is the geometry at the start of the pass
  (\<^verbatim>\<open>container = this.bounds()\<close> is read once, at line 182). A view in range
  that is not displayed has its display started; the two handlers attached at lines
  202-206 run later, when the display promise settles. The second component of the
  state is the array \<^verbatim>\<open>promises\<close>: for each promise, the index of the view whose
  display it waits for and how that display settles.
\<close>

definition update_step ::
  "world \<Rightarrow> geometry \<Rightarrow> real \<Rightarrow> nat \<Rightarrow> manager \<times> (nat \<times> settlement) list
     \<Rightarrow> manager \<times> (nat \<times> settlement) list" where
  "update_step w g off i sp =
     (let st = fst sp; promises = snd sp; view = views st ! i
      in if isVisible w g view off off then
           (if \<not> displayed view then
              (let d = view_display w view
               in (st\<lparr>views := (views st)[i := snd d]\<rparr>, promises @ [(i, fst d)]))
            else (st\<lparr>views := (views st)[i := view_show view]\<rparr>, promises))
         else
           (st\<lparr>q := q st @ [TaskDestroy (vid view)], trimTimeout := Some 250\<rparr>, promises))"

text \<open>
  The handlers of lines 202-206, run when a display promise settles. The fulfilment
  handler \<^verbatim>\<open>function(view) { view.show(); }\<close> shows its own parameter, the
  view the promise resolved to. The rejection handler
  \<^verbatim>\<open>err => { view.hide(); }\<close> has no parameter of that name: its
  \<^verbatim>\<open>view\<close> is the variable declared once for the whole call at line 188.
  Handlers run after the loop has finished, and by then that variable holds the last
  view of the window, \<^verbatim>\<open>views[viewsLength - 1]\<close>; \<open>lastIndex\<close> is its index.
\<close>

definition run_handler :: "nat \<Rightarrow> nat \<times> settlement \<Rightarrow> manager \<Rightarrow> manager" where
  "run_handler lastIndex p st =
     (case snd p of
        Fulfilled \<Rightarrow> st\<lparr>views := (views st)[fst p := view_show (views st ! fst p)]\<rparr>
      | Rejected \<Rightarrow>
          st\<lparr>views := (views st)[lastIndex := view_hide (views st ! lastIndex)]\<rparr>)"

text \<open>
  Lines 181-234. After the loop the display promises settle in the order of their
  settle times, promises that settle at the same time in the order in which they were
  collected, and each runs its handler. Every member of \<^verbatim>\<open>promises\<close> is the
  result of \<^verbatim>\<open>then\<close> with both handlers. When
  \<^verbatim>\<open>Promise.all(promises)\<close> is rejected, the handler of \<^verbatim>\<open>catch\<close>
  returns nothing and the promise that \<^verbatim>\<open>update\<close> returned is fulfilled with
  \<^verbatim>\<open>undefined\<close>. The state returned is the state when the returned promise
  has settled.
\<close>

definition update_offset :: "manager \<Rightarrow> real option \<Rightarrow> real" where
  "update_offset st offs =
     (case offs of Some x \<Rightarrow> x | None \<Rightarrow> or_zero (offset (settings st)))"

definition update :: "world \<Rightarrow> manager \<Rightarrow> real option \<Rightarrow> result \<times> manager" where
  "update w st offs =
     (let off = update_offset st offs;
          viewsLength = length (views st);
          sp = fold (update_step w (geom st) off) [0..<viewsLength] (st, []);
          promises = snd sp;
          settled = sort_key (\<lambda>p. settle_time w (vsection (views st ! fst p))) promises;
          st2 = fold (run_handler (viewsLength - 1)) settled (fst sp);
          joined = map (\<lambda>p. then_both (snd p)) promises
      in (if length promises \<noteq> 0
          then (case promise_all joined of
                  Fulfilled \<Rightarrow> RArray (length promises)
                | Rejected \<Rightarrow> RUndefined)
          else RUndefined,
          st2))"

subsection \<open>Growing the window: check and fill\<close>

text \<open>
  Lines 128-148 and 150-171: make a view for the section and put it in the window.
  The handlers that these methods register on the view run only when the view reports
  an event later on; what they then do to the scroll position is part of the geometry
  that \<open>relayout\<close> reports.
\<close>

definition mgr_append :: "world \<Rightarrow> nat \<Rightarrow> manager \<Rightarrow> view \<times> manager" where
  "mgr_append w s st =
     (let cv = createView w s st; view = fst cv; st1 = snd cv
      in (view, st1\<lparr>views := views st1 @ [view]\<rparr>))"

definition mgr_prepend :: "world \<Rightarrow> nat \<Rightarrow> manager \<Rightarrow> view \<times> manager" where
  "mgr_prepend w s st =
     (let cv = createView w s st; view = fst cv; st1 = snd cv
      in (view, st1\<lparr>views := view # views st1\<rparr>))"

text \<open>
  The closures \<^verbatim>\<open>append\<close> and \<^verbatim>\<open>prepend\<close> of lines 277-294. The second
  component is \<^verbatim>\<open>newViews\<close>, kept as the list of the identities of the new
  views.
\<close>

definition check_append :: "world \<Rightarrow> manager \<times> nat list \<Rightarrow> manager \<times> nat list" where
  "check_append w sn =
     (case views_last (views (fst sn)) of
        None \<Rightarrow> sn
      | Some lst \<Rightarrow>
          (case section_next (spine_length w) (vsection lst) of
             None \<Rightarrow> sn
           | Some nxt \<Rightarrow>
               (let a = mgr_append w nxt (fst sn) in (snd a, snd sn @ [vid (fst a)]))))"

definition check_prepend :: "world \<Rightarrow> manager \<times> nat list \<Rightarrow> manager \<times> nat list" where
  "check_prepend w sn =
     (case views_first (views (fst sn)) of
        None \<Rightarrow> sn
      | Some first \<Rightarrow>
          (case section_prev (vsection first) of
             None \<Rightarrow> sn
           | Some prv \<Rightarrow>
               (let a = mgr_prepend w prv (fst sn) in (snd a, snd sn @ [vid (fst a)]))))"

text \<open>
  Lines 236-305: one pass of \<^verbatim>\<open>check\<close> up to the point where the new views
  are known. The result is the state and \<^verbatim>\<open>newViews\<close>.
\<close>

definition check_pass ::
  "world \<Rightarrow> manager \<Rightarrow> real option \<Rightarrow> real option \<Rightarrow> manager \<times> nat list" where
  "check_pass w st offsetLeft offsetTop =
     (let d = check_delta st offsetLeft offsetTop;
          off = check_offset st;
          end_pos = off + visibleLength st + d;
          start_pos = off - d;
          sn1 = (if end_pos \<ge> contentLength st then check_append w (st, []) else (st, []));
          sn2 = (if start_pos < 0 then check_prepend w sn1 else sn1)
      in sn2)"

text \<open>
  Line 308: every new view is displayed. \<open>display_new\<close> is the window afterwards and
  \<open>new_promises\<close> is the array \<^verbatim>\<open>promises\<close>, in the order of the window; the
  order has no bearing on \<^verbatim>\<open>Promise.all\<close>.
\<close>

definition display_new :: "world \<Rightarrow> nat list \<Rightarrow> manager \<Rightarrow> manager" where
  "display_new w newViews st =
     st\<lparr>views := map (\<lambda>v. if vid v \<in> set newViews then snd (view_display w v) else v)
                       (views st)\<rparr>"

definition new_promises :: "world \<Rightarrow> nat list \<Rightarrow> manager \<Rightarrow> settlement list" where
  "new_promises w newViews st =
     map (\<lambda>v. fst (view_display w v)) (filter (\<lambda>v. vid v \<in> set newViews) (views st))"

text \<open>
  While \<^verbatim>\<open>check\<close> waits for the new views, the browser lays the window out and
  delivers scroll events: the geometry becomes what the browser reports for the
  window as it is then.
\<close>

definition settle :: "world \<Rightarrow> manager \<Rightarrow> manager" where
  "settle w st = st\<lparr>geom := relayout w (views st)\<rparr>"

text \<open>
  The distance that is left for growth: sections after the last view plus sections
  before the first one. Every pass that adds a view makes it smaller.
\<close>

definition gap_left :: "world \<Rightarrow> manager \<Rightarrow> nat" where
  "gap_left w st =
     (if views st = [] then 0
      else (spine_length w - vsection (last (views st))) + vsection (hd (views st)))"

subsection \<open>The growth recursion is well-founded\<close>

text \<open>
  \<^verbatim>\<open>check\<close> calls itself after it has added views, and \<^verbatim>\<open>fill\<close> calls
  \<^verbatim>\<open>check\<close> again as long as the result is truthy. Both are defined below as
  total functions; the lemmas of this subsection show that \<open>gap_left\<close> decreases
  with every pass that adds a view, which is the termination argument.
\<close>

lemma gap_left_cong:
  "map vsection (views a) = map vsection (views b) \<Longrightarrow> gap_left w a = gap_left w b"
proof (cases "views a = []")
  case True
  assume "map vsection (views a) = map vsection (views b)"
  with True have "views b = []" by simp
  with True show ?thesis by (simp add: gap_left_def)
next
  case False
  assume m: "map vsection (views a) = map vsection (views b)"
  with False have nb: "views b \<noteq> []" by auto
  have "vsection (hd (views a)) = hd (map vsection (views a))"
    using False by (simp add: hd_map)
  moreover have "vsection (hd (views b)) = hd (map vsection (views b))"
    using nb by (simp add: hd_map)
  moreover have "vsection (last (views a)) = last (map vsection (views a))"
    using False by (simp add: last_map)
  moreover have "vsection (last (views b)) = last (map vsection (views b))"
    using nb by (simp add: last_map)
  ultimately show ?thesis using m False nb by (simp add: gap_left_def)
qed

lemma sections_display_new:
  "map vsection (views (display_new w nv st)) = map vsection (views st)"
  by (simp add: display_new_def view_display_def comp_def)

lemma gap_left_settle_display:
  "gap_left w (settle w (display_new w nv st)) = gap_left w st"
proof -
  have "map vsection (views (settle w (display_new w nv st))) = map vsection (views st)"
    by (simp add: settle_def sections_display_new)
  then show ?thesis by (rule gap_left_cong)
qed

lemma check_append_grows:
  "snd (check_append w (st, nv)) \<noteq> nv \<Longrightarrow>
     gap_left w (fst (check_append w (st, nv))) < gap_left w st
     \<and> views (fst (check_append w (st, nv))) \<noteq> []"
  by (auto simp: check_append_def views_last_def section_next_def mgr_append_def
        createView_def gap_left_def Let_def split: if_splits option.splits)

lemma check_append_same:
  "snd (check_append w (st, nv)) = nv \<Longrightarrow> check_append w (st, nv) = (st, nv)"
  by (auto simp: check_append_def views_last_def section_next_def mgr_append_def
        createView_def Let_def split: if_splits option.splits)

lemma check_prepend_grows:
  "snd (check_prepend w (st, nv)) \<noteq> nv \<Longrightarrow>
     gap_left w (fst (check_prepend w (st, nv))) < gap_left w st"
  by (auto simp: check_prepend_def views_first_def section_prev_def mgr_prepend_def
        createView_def gap_left_def Let_def split: if_splits option.splits list.splits)

lemma check_prepend_same:
  "snd (check_prepend w (st, nv)) = nv \<Longrightarrow> check_prepend w (st, nv) = (st, nv)"
  by (auto simp: check_prepend_def views_first_def section_prev_def mgr_prepend_def
        createView_def Let_def split: if_splits option.splits list.splits)


lemma check_append_le:
  "gap_left w (fst (check_append w (st, nv))) \<le> gap_left w st"
proof (cases "snd (check_append w (st, nv)) = nv")
  case True
  then show ?thesis by (simp add: check_append_same)
next
  case False
  then show ?thesis using check_append_grows [of w st nv] by simp
qed

lemma check_prepend_le:
  "gap_left w (fst (check_prepend w (st, nv))) \<le> gap_left w st"
proof (cases "snd (check_prepend w (st, nv)) = nv")
  case True
  then show ?thesis by (simp add: check_prepend_same)
next
  case False
  then show ?thesis using check_prepend_grows [of w st nv] by simp
qed

lemma check_pass_grows:
  "snd (check_pass w st l t) \<noteq> [] \<Longrightarrow> gap_left w (fst (check_pass w st l t)) < gap_left w st"
proof -
  assume g: "snd (check_pass w st l t) \<noteq> []"
  define sn1 where "sn1 = (if check_offset st + visibleLength st + check_delta st l t \<ge> contentLength st
                           then check_append w (st, []) else (st, []))"
  define sn2 where "sn2 = (if check_offset st - check_delta st l t < 0 then check_prepend w sn1 else sn1)"
  have cp: "check_pass w st l t = sn2"
    by (simp add: check_pass_def Let_def sn1_def sn2_def)
  have a: "gap_left w (fst sn1) \<le> gap_left w st"
    and a': "snd sn1 \<noteq> [] \<Longrightarrow> gap_left w (fst sn1) < gap_left w st"
    using check_append_grows [of w st "[]"] check_append_le [of w st "[]"]
    by (simp_all add: sn1_def split: if_splits)
  have b: "gap_left w (fst sn2) \<le> gap_left w (fst sn1)"
    and b': "snd sn2 \<noteq> snd sn1 \<Longrightarrow> gap_left w (fst sn2) < gap_left w (fst sn1)"
    using check_prepend_grows [of w "fst sn1" "snd sn1"] check_prepend_le [of w "fst sn1" "snd sn1"]
    by (simp_all add: sn2_def split: if_splits)
  show ?thesis
  proof (cases "snd sn1 = []")
    case True
    with g cp have "snd sn2 \<noteq> snd sn1" by simp
    from b' [OF this] a show ?thesis by (simp add: cp)
  next
    case False
    from a' [OF this] b show ?thesis by (simp add: cp)
  qed
qed

lemma check_pass_same:
  "snd (check_pass w st l t) = [] \<Longrightarrow> fst (check_pass w st l t) = st"
  by (auto simp: check_pass_def Let_def check_append_def check_prepend_def mgr_append_def
      mgr_prepend_def split: if_splits option.splits)

text \<open>
  Lines 236-326, \<^verbatim>\<open>check\<close>. When views were added and all of them rendered,
  \<^verbatim>\<open>check\<close> runs again without arguments, its result is dropped, and the
  visibility pass \<^verbatim>\<open>update(delta)\<close> runs inline; the promise resolves to what
  that pass resolves to. When a new view failed to render, the handler
  \<^verbatim>\<open>err => err\<close> resolves the promise to the reason. When no view was added,
  \<^verbatim>\<open>update\<close> is put on the queue and the promise resolves to
  \<^verbatim>\<open>false\<close>. The third component of the result is not part of the program: it
  counts the passes of \<^verbatim>\<open>check\<close> made by the call, this one and the nested
  ones.
\<close>

function check :: "world \<Rightarrow> manager \<Rightarrow> real option \<Rightarrow> real option \<Rightarrow> result \<times> manager \<times> nat" where
  "check w st offsetLeft offsetTop =
     (let sn = check_pass w st offsetLeft offsetTop;
          d = check_delta st offsetLeft offsetTop
      in if snd sn \<noteq> [] then
           (if promise_all (new_promises w (snd sn) (fst sn)) = Fulfilled then
              (let rec = check w (settle w (display_new w (snd sn) (fst sn))) None None;
                   u = update w (fst (snd rec)) (Some d)
               in (fst u, snd u, Suc (snd (snd rec))))
            else (RError, display_new w (snd sn) (fst sn), 1))
         else (RFalse, (fst sn)\<lparr>q := q (fst sn) @ [TaskUpdate]\<rparr>, 1))"
  by pat_completeness auto
termination
  by (relation "measure (\<lambda>(w, st, l, t). gap_left w st)")
     (simp_all add: gap_left_settle_display check_pass_grows)

declare check.simps [simp del]

text \<open>
  What the synchronous loop of \<^verbatim>\<open>update\<close> makes of a single view, and the
  promises it collects from a window.
\<close>

definition sync_view :: "world \<Rightarrow> geometry \<Rightarrow> real \<Rightarrow> view \<Rightarrow> view" where
  "sync_view w g off view =
     (if isVisible w g view off off then
        (if \<not> displayed view then snd (view_display w view) else view_show view)
      else view)"

definition started_promises ::
  "world \<Rightarrow> geometry \<Rightarrow> real \<Rightarrow> view list \<Rightarrow> (nat \<times> settlement) list" where
  "started_promises w g off vs =
     map (\<lambda>i. (i, fst (view_display w (vs ! i))))
       (filter (\<lambda>i. isVisible w g (vs ! i) off off \<and> \<not> displayed (vs ! i)) [0..<length vs])"

lemma update_step_at:
  "update_step w g off i (st, ps) =
     (st\<lparr>views := (views st)[i := sync_view w g off (views st ! i)],
         q := q st @ (if isVisible w g (views st ! i) off off then []
                      else [TaskDestroy (vid (views st ! i))]),
         trimTimeout := (if isVisible w g (views st ! i) off off then trimTimeout st
                         else Some 250)\<rparr>,
      ps @ (if isVisible w g (views st ! i) off off \<and> \<not> displayed (views st ! i)
            then [(i, fst (view_display w (views st ! i)))] else []))"
  by (simp add: update_step_def Let_def sync_view_def)

lemma update_fold:
  "n \<le> length (views st) \<Longrightarrow>
   fold (update_step w g off) [0..<n] (st, ps) =
     (st\<lparr>views := map (sync_view w g off) (take n (views st)) @ drop n (views st),
         q := q st @ map (\<lambda>v. TaskDestroy (vid v))
                (filter (\<lambda>v. \<not> isVisible w g v off off) (take n (views st))),
         trimTimeout := (if \<exists>v \<in> set (take n (views st)). \<not> isVisible w g v off off
                         then Some 250 else trimTimeout st)\<rparr>,
      ps @ map (\<lambda>i. (i, fst (view_display w (views st ! i))))
             (filter (\<lambda>i. isVisible w g (views st ! i) off off \<and> \<not> displayed (views st ! i))
                [0..<n]))"
proof (induction n)
  case 0
  then show ?case by simp
next
  case (Suc n)
  then have n: "n < length (views st)" by simp
  let ?vs = "views st"
  let ?f = "sync_view w g off"
  have nth: "(map ?f (take n ?vs) @ drop n ?vs) ! n = ?vs ! n"
    using n by (simp add: nth_append)
  have upd: "\<And>x. (map ?f (take n ?vs) @ drop n ?vs)[n := x]
              = map ?f (take n ?vs) @ x # drop (Suc n) ?vs"
    using n by (simp add: list_update_append Cons_nth_drop_Suc [symmetric])
  have tk: "take (Suc n) ?vs = take n ?vs @ [?vs ! n]"
    using n by (simp add: take_Suc_conv_app_nth)
  have ih: "fold (update_step w g off) [0..<n] (st, ps) =
     (st\<lparr>views := map ?f (take n ?vs) @ drop n ?vs,
         q := q st @ map (\<lambda>v. TaskDestroy (vid v))
                (filter (\<lambda>v. \<not> isVisible w g v off off) (take n ?vs)),
         trimTimeout := (if \<exists>v \<in> set (take n ?vs). \<not> isVisible w g v off off
                         then Some 250 else trimTimeout st)\<rparr>,
      ps @ map (\<lambda>i. (i, fst (view_display w (?vs ! i))))
             (filter (\<lambda>i. isVisible w g (?vs ! i) off off \<and> \<not> displayed (?vs ! i)) [0..<n]))"
    using Suc by simp
  show ?case
    unfolding upt_Suc_append [OF le0] fold_append comp_apply ih
    by (simp add: update_step_at nth upd tk)
qed

lemma filter_indices:
  "map (\<lambda>i. vs ! i) (filter (\<lambda>i. P (vs ! i)) [0..<length vs]) = filter P vs"
proof -
  have "filter P (map (\<lambda>i. vs ! i) [0..<length vs])
          = map (\<lambda>i. vs ! i) (filter (P \<circ> (\<lambda>i. vs ! i)) [0..<length vs])"
    by (rule filter_map)
  then show ?thesis by (simp add: map_nth comp_def)
qed

lemma length_started_promises:
  "length (started_promises w g off vs)
     = length (filter (\<lambda>v. isVisible w g v off off \<and> \<not> displayed v) vs)"
proof -
  have "length (filter (\<lambda>i. isVisible w g (vs ! i) off off \<and> \<not> displayed (vs ! i)) [0..<length vs])
      = length (map (\<lambda>i. vs ! i)
          (filter (\<lambda>i. isVisible w g (vs ! i) off off \<and> \<not> displayed (vs ! i)) [0..<length vs]))"
    by simp
  also have "\<dots> = length (filter (\<lambda>v. isVisible w g v off off \<and> \<not> displayed v) vs)"
    by (simp only: filter_indices [of vs "\<lambda>v. isVisible w g v off off \<and> \<not> displayed v"])
  finally show ?thesis by (simp add: started_promises_def)
qed

lemma then_both_Fulfilled: "then_both p = Fulfilled"
  by (cases p) simp_all

lemma update_eq:
  "update w st offs =
     (let off = update_offset st offs; g = geom st;
          started = filter (\<lambda>v. isVisible w g v off off \<and> \<not> displayed v) (views st)
      in (if started \<noteq> [] then RArray (length started) else RUndefined,
          fold (run_handler (length (views st) - 1))
            (sort_key (\<lambda>p. settle_time w (vsection (views st ! fst p)))
               (started_promises w g off (views st)))
            (st\<lparr>views := map (sync_view w g off) (views st),
                q := q st @ map (\<lambda>v. TaskDestroy (vid v))
                       (filter (\<lambda>v. \<not> isVisible w g v off off) (views st)),
                trimTimeout := (if \<exists>v \<in> set (views st). \<not> isVisible w g v off off
                                then Some 250 else trimTimeout st)\<rparr>)))"
proof -
  have l: "length (started_promises w (geom st) (update_offset st offs) (views st)) =
        length (filter (\<lambda>v. isVisible w (geom st) v (update_offset st offs) (update_offset st offs)
                             \<and> \<not> displayed v) (views st))"
    by (rule length_started_promises)
  have pa: "\<And>ps :: (nat \<times> settlement) list. promise_all (map (\<lambda>p. then_both (snd p)) ps) = Fulfilled"
    by (simp add: promise_all_def list_all_iff then_both_Fulfilled)
  show ?thesis
    unfolding update_def Let_def update_fold [OF le_refl] started_promises_def [symmetric]
    by (simp add: pa l)
qed

text \<open>The handlers change nothing but the attribute \<open>shown\<close> of views.\<close>

lemma list_update_same_image:
  assumes "f y = f (xs ! k)"
  shows "map f (xs[k := y]) = map f xs"
proof (cases "k < length xs")
  case True
  with assms show ?thesis by (simp add: map_update list_update_same_conv)
next
  case False
  then have "length xs \<le> k" by simp
  then show ?thesis by (simp add: list_update_beyond)
qed

lemma run_handler_sections:
  "map vsection (views (run_handler l p st)) = map vsection (views st)"
  by (simp add: run_handler_def list_update_same_image view_show_def view_hide_def
      split: settlement.splits)

lemma fold_run_handler_sections:
  "map vsection (views (fold (run_handler l) ps st)) = map vsection (views st)"
  by (induction ps arbitrary: st) (simp_all add: run_handler_sections)

lemma fold_run_handler_q: "q (fold (run_handler l) ps st) = q st"
  by (induction ps arbitrary: st) (simp_all add: run_handler_def split: settlement.splits)

lemma fold_run_handler_trimTimeout:
  "trimTimeout (fold (run_handler l) ps st) = trimTimeout st"
  by (induction ps arbitrary: st) (simp_all add: run_handler_def split: settlement.splits)

lemma fold_run_handler_length:
  "length (views (fold (run_handler l) ps st)) = length (views st)"
  by (induction ps arbitrary: st) (simp_all add: run_handler_def split: settlement.splits)

text \<open>
  A view that is not the last of the window, and the last view too when no promise
  is rejected, is touched by its own fulfilment handler only.
\<close>

lemma fold_run_handler_nth:
  "i < length (views st) \<Longrightarrow>
   i \<noteq> l \<or> (\<forall>p \<in> set ps. snd p \<noteq> Rejected) \<Longrightarrow>
   views (fold (run_handler l) ps st) ! i
     = (if (i, Fulfilled) \<in> set ps then view_show (views st ! i) else views st ! i)"
proof (induction ps arbitrary: st)
  case Nil
  then show ?case by simp
next
  case (Cons p ps)
  obtain k s where p: "p = (k, s)" by (cases p)
  have side: "i \<noteq> l \<or> (\<forall>p \<in> set ps. snd p \<noteq> Rejected)"
    using Cons.prems(2) by auto
  show ?case
  proof (cases s)
    case Fulfilled
    let ?st1 = "run_handler l p st"
    have v1: "views ?st1 = (views st)[k := view_show (views st ! k)]"
      by (simp add: run_handler_def p Fulfilled)
    have len: "i < length (views ?st1)" using Cons.prems(1) by (simp add: v1)
    have nth: "views ?st1 ! i = (if k = i then view_show (views st ! i) else views st ! i)"
      using Cons.prems(1) by (simp add: v1 nth_list_update)
    have idem: "view_show (view_show (views st ! i)) = view_show (views st ! i)"
      by (simp add: view_show_def)
    from Cons.IH [OF len side] nth idem show ?thesis
      by (auto simp: p Fulfilled)
  next
    case Rejected
    let ?st1 = "run_handler l p st"
    from Cons.prems(2) have il: "i \<noteq> l" by (auto simp: p Rejected)
    have v1: "views ?st1 = (views st)[l := view_hide (views st ! l)]"
      by (simp add: run_handler_def p Rejected)
    have len: "i < length (views ?st1)" using Cons.prems(1) by (simp add: v1)
    have nth: "views ?st1 ! i = views st ! i"
      using il by (simp add: v1)
    from Cons.IH [OF len side] nth show ?thesis
      by (auto simp: p Rejected)
  qed
qed

lemma started_fulfilled_iff:
  "(i, Fulfilled) \<in> set (started_promises w g off vs) \<longleftrightarrow>
     i < length vs \<and> isVisible w g (vs ! i) off off \<and> \<not> displayed (vs ! i)
       \<and> request w (vsection (vs ! i))"
  by (auto simp: started_promises_def view_display_def split: if_splits)

lemma started_no_reject:
  "(\<forall>p \<in> set (started_promises w g off vs). snd p \<noteq> Rejected) \<longleftrightarrow>
     (\<forall>u \<in> set vs. isVisible w g u off off \<and> \<not> displayed u \<longrightarrow> request w (vsection u))"
  by (auto simp: started_promises_def view_display_def all_set_conv_all_nth split: if_splits)

lemma sections_sync_view: "vsection (sync_view w g off v) = vsection v"
  by (simp add: sync_view_def view_display_def view_show_def)

lemma sections_update:
  "map vsection (views (snd (update w st offs))) = map vsection (views st)"
  by (simp add: update_eq Let_def comp_def fold_run_handler_sections sections_sync_view)

lemma gap_left_update: "gap_left w (snd (update w st offs)) = gap_left w st"
  by (rule gap_left_cong) (rule sections_update)

lemma check_gap_le:
  "gap_left w (fst (snd (check w st l t))) \<le> gap_left w st"
proof (induction w st l t rule: check.induct)
  case (1 w st l t)
  let ?sn = "check_pass w st l t"
  show ?case
  proof (cases "snd ?sn = []")
    case True
    then have "fst ?sn = st" by (rule check_pass_same)
    with True show ?thesis
      by (subst check.simps) (simp add: Let_def gap_left_def)
  next
    case False
    then have lt: "gap_left w (fst ?sn) < gap_left w st" by (rule check_pass_grows)
    show ?thesis
    proof (cases "promise_all (new_promises w (snd ?sn) (fst ?sn)) = Fulfilled")
      case True
      have "gap_left w (fst (snd (check w (settle w (display_new w (snd ?sn) (fst ?sn))) None None)))
              \<le> gap_left w (settle w (display_new w (snd ?sn) (fst ?sn)))"
        using "1.IH" [OF refl refl False True] .
      with lt False True show ?thesis
        by (subst check.simps) (simp add: Let_def gap_left_update gap_left_settle_display)
    next
      case no: False
      have "gap_left w (display_new w (snd ?sn) (fst ?sn)) = gap_left w (fst ?sn)"
        by (rule gap_left_cong) (rule sections_display_new)
      with lt False no show ?thesis
        by (subst check.simps) (simp add: Let_def)
    qed
  qed
qed

lemma check_truthy_grows:
  "truthy (fst (check w st l t)) \<Longrightarrow> gap_left w (fst (snd (check w st l t))) < gap_left w st"
proof -
  assume tr: "truthy (fst (check w st l t))"
  let ?sn = "check_pass w st l t"
  have g: "snd ?sn \<noteq> []"
  proof
    assume "snd ?sn = []"
    then have "fst (check w st l t) = RFalse"
      by (subst check.simps) (simp add: Let_def)
    with tr show False by simp
  qed
  then have lt: "gap_left w (fst ?sn) < gap_left w st" by (rule check_pass_grows)
  show ?thesis
  proof (cases "promise_all (new_promises w (snd ?sn) (fst ?sn)) = Fulfilled")
    case True
    have "gap_left w (fst (snd (check w (settle w (display_new w (snd ?sn) (fst ?sn))) None None)))
              \<le> gap_left w (settle w (display_new w (snd ?sn) (fst ?sn)))"
      by (rule check_gap_le)
    with lt g True show ?thesis
      by (subst check.simps) (simp add: Let_def gap_left_update gap_left_settle_display)
  next
    case no: False
    have "gap_left w (display_new w (snd ?sn) (fst ?sn)) = gap_left w (fst ?sn)"
      by (rule gap_left_cong) (rule sections_display_new)
    with lt g no show ?thesis
      by (subst check.simps) (simp add: Let_def)
  qed
qed

lemma gap_left_settle: "gap_left w (settle w st) = gap_left w st"
  by (simp add: gap_left_def settle_def)

text \<open>
  Lines 55-67, \<^verbatim>\<open>fill\<close>: \<^verbatim>\<open>check\<close> is called until its result is
  falsy. Between two calls the browser may report a new geometry. The first component
  of the result is not part of the program: it counts the calls of \<^verbatim>\<open>check\<close>.
\<close>

function fill :: "world \<Rightarrow> manager \<Rightarrow> nat \<times> manager" where
  "fill w st =
     (let c = check w st None None
      in if truthy (fst c)
         then (let f = fill w (settle w (fst (snd c))) in (Suc (fst f), snd f))
         else (1, fst (snd c)))"
  by pat_completeness auto
termination
  by (relation "measure (\<lambda>(w, st). gap_left w st)")
     (simp_all add: gap_left_settle check_truthy_grows)

declare fill.simps [simp del]

text \<open>
  A window that makes sense for a document of \<open>spine_length w\<close> sections: it is not
  empty, its first section is not after its last one, and its last section exists.
\<close>

definition window_ok :: "world \<Rightarrow> manager \<Rightarrow> bool" where
  "window_ok w st =
     (views st \<noteq> [] \<and> vsection (hd (views st)) \<le> vsection (last (views st))
      \<and> vsection (last (views st)) < spine_length w)"

text \<open>
  The state in which a repeated call of \<^verbatim>\<open>check\<close> runs: the state the previous
  call left, under the geometry the browser reports then.
\<close>

definition check_again :: "world \<Rightarrow> manager \<Rightarrow> manager" where
  "check_again w st = settle w (fst (snd (check w st None None)))"

lemma window_ok_cong:
  assumes m: "map vsection (views a) = map vsection (views b)"
  shows "window_ok w a = window_ok w b"
proof (cases "views a = []")
  case True
  with m have "views b = []" by simp
  with True show ?thesis by (simp add: window_ok_def)
next
  case False
  with m have nb: "views b \<noteq> []" by auto
  have "vsection (hd (views a)) = hd (map vsection (views a))"
    using False by (simp add: hd_map)
  moreover have "vsection (hd (views b)) = hd (map vsection (views b))"
    using nb by (simp add: hd_map)
  moreover have "vsection (last (views a)) = last (map vsection (views a))"
    using False by (simp add: last_map)
  moreover have "vsection (last (views b)) = last (map vsection (views b))"
    using nb by (simp add: last_map)
  ultimately show ?thesis using m False nb by (simp add: window_ok_def)
qed

lemma window_ok_gap: "window_ok w st \<Longrightarrow> 1 \<le> gap_left w st \<and> gap_left w st \<le> spine_length w"
  by (auto simp: window_ok_def gap_left_def)

lemma window_ok_append:
  "window_ok w st \<Longrightarrow> window_ok w (fst (check_append w (st, nv)))"
  by (auto simp: check_append_def views_last_def section_next_def mgr_append_def
        createView_def window_ok_def Let_def hd_append split: if_splits option.splits)

lemma window_ok_prepend:
  "window_ok w st \<Longrightarrow> window_ok w (fst (check_prepend w (st, nv)))"
  by (auto simp: check_prepend_def views_first_def section_prev_def mgr_prepend_def
        createView_def window_ok_def Let_def split: if_splits option.splits list.splits)

lemma window_ok_pass:
  "window_ok w st \<Longrightarrow> window_ok w (fst (check_pass w st l t))"
  using window_ok_append [of w st "[]"] window_ok_prepend [of w st "[]"]
    window_ok_prepend [of w "fst (check_append w (st, []))" "snd (check_append w (st, []))"]
  by (simp add: check_pass_def Let_def)

lemma window_ok_display_new: "window_ok w (display_new w nv st) = window_ok w st"
  by (rule window_ok_cong) (rule sections_display_new)

lemma window_ok_settle: "window_ok w (settle w st) = window_ok w st"
  by (simp add: window_ok_def settle_def)

lemma window_ok_update: "window_ok w (snd (update w st offs)) = window_ok w st"
  by (rule window_ok_cong) (rule sections_update)

lemma window_ok_check:
  "window_ok w st \<Longrightarrow> window_ok w (fst (snd (check w st l t)))"
proof (induction w st l t rule: check.induct)
  case (1 w st l t)
  let ?sn = "check_pass w st l t"
  have ok: "window_ok w (fst ?sn)" using "1.prems" by (rule window_ok_pass)
  show ?case
  proof (cases "snd ?sn = []")
    case True
    with ok show ?thesis
      by (subst check.simps) (simp add: Let_def window_ok_def)
  next
    case False
    show ?thesis
    proof (cases "promise_all (new_promises w (snd ?sn) (fst ?sn)) = Fulfilled")
      case True
      from ok have "window_ok w (settle w (display_new w (snd ?sn) (fst ?sn)))"
        by (simp add: window_ok_settle window_ok_display_new)
      from "1.IH" [OF refl refl False True this] False True show ?thesis
        by (subst check.simps) (simp add: Let_def window_ok_update)
    next
      case no: False
      with ok False show ?thesis
        by (subst check.simps) (simp add: Let_def window_ok_display_new)
    qed
  qed
qed

lemma check_passes_gap:
  "snd (snd (check w st l t)) + gap_left w (fst (snd (check w st l t))) \<le> gap_left w st + 1"
proof (induction w st l t rule: check.induct)
  case (1 w st l t)
  let ?sn = "check_pass w st l t"
  show ?case
  proof (cases "snd ?sn = []")
    case True
    then have "fst ?sn = st" by (rule check_pass_same)
    with True show ?thesis
      by (subst check.simps, subst (2) check.simps) (simp add: Let_def gap_left_def)
  next
    case False
    then have lt: "gap_left w (fst ?sn) < gap_left w st" by (rule check_pass_grows)
    show ?thesis
    proof (cases "promise_all (new_promises w (snd ?sn) (fst ?sn)) = Fulfilled")
      case True
      from "1.IH" [OF refl refl False True] lt False True show ?thesis
        by (subst check.simps, subst (2) check.simps)
           (simp add: Let_def gap_left_update gap_left_settle_display)
    next
      case no: False
      have "gap_left w (display_new w (snd ?sn) (fst ?sn)) = gap_left w (fst ?sn)"
        by (rule gap_left_cong) (rule sections_display_new)
      with lt False no show ?thesis
        by (subst check.simps, subst (2) check.simps) (simp add: Let_def)
    qed
  qed
qed

lemma check_no_growth:
  "snd (check_pass w st l t) = [] \<Longrightarrow>
     check w st l t = (RFalse, st\<lparr>q := q st @ [TaskUpdate]\<rparr>, 1)"
  by (subst check.simps) (simp add: Let_def check_pass_same)

lemma update_result: "fst (update w st offs) \<noteq> RFalse \<and> fst (update w st offs) \<noteq> RError"
  by (simp add: update_eq Let_def)

lemma check_growth_result:
  "snd (check_pass w st l t) \<noteq> [] \<Longrightarrow> fst (check w st l t) \<noteq> RFalse"
  by (subst check.simps) (simp add: Let_def update_result)

lemma check_false_iff:
  "fst (check w st l t) = RFalse \<longleftrightarrow> snd (check_pass w st l t) = []"
  using check_growth_result [of w st l t] check_no_growth [of w st l t] by auto

lemma check_not_false_grows:
  "fst (check w st l t) \<noteq> RFalse \<Longrightarrow> gap_left w (fst (snd (check w st l t))) < gap_left w st"
proof -
  assume "fst (check w st l t) \<noteq> RFalse"
  then have g: "snd (check_pass w st l t) \<noteq> []" by (simp add: check_false_iff)
  then have lt: "gap_left w (fst (check_pass w st l t)) < gap_left w st" by (rule check_pass_grows)
  have "snd (snd (check w st l t)) \<ge> 1"
    by (subst check.simps) (simp add: Let_def)
  let ?sn = "check_pass w st l t"
  show ?thesis
  proof (cases "promise_all (new_promises w (snd ?sn) (fst ?sn)) = Fulfilled")
    case True
    have "gap_left w (fst (snd (check w (settle w (display_new w (snd ?sn) (fst ?sn))) None None)))
              \<le> gap_left w (settle w (display_new w (snd ?sn) (fst ?sn)))"
      by (rule check_gap_le)
    with lt g True show ?thesis
      by (subst check.simps) (simp add: Let_def gap_left_update gap_left_settle_display)
  next
    case no: False
    have "gap_left w (display_new w (snd ?sn) (fst ?sn)) = gap_left w (fst ?sn)"
      by (rule gap_left_cong) (rule sections_display_new)
    with lt g no show ?thesis
      by (subst check.simps) (simp add: Let_def)
  qed
qed

lemma fill_calls_gap:
  "fst (fill w st) + gap_left w (snd (fill w st)) \<le> gap_left w st + 1"
proof (induction w st rule: fill.induct)
  case (1 w st)
  let ?c = "check w st None None"
  show ?case
  proof (cases "truthy (fst ?c)")
    case True
    then have "gap_left w (fst (snd ?c)) < gap_left w st" by (rule check_truthy_grows)
    with "1.IH" [OF refl True] True show ?thesis
      by (subst fill.simps, subst (2) fill.simps) (simp add: Let_def gap_left_settle)
  next
    case False
    with check_gap_le [of w st None None] show ?thesis
      by (subst fill.simps, subst (2) fill.simps) (simp add: Let_def)
  qed
qed

lemma window_ok_fill: "window_ok w st \<Longrightarrow> window_ok w (snd (fill w st))"
proof (induction w st rule: fill.induct)
  case (1 w st)
  let ?c = "check w st None None"
  have ok: "window_ok w (fst (snd ?c))" using "1.prems" by (rule window_ok_check)
  show ?case
  proof (cases "truthy (fst ?c)")
    case True
    from ok have "window_ok w (settle w (fst (snd ?c)))" by (simp add: window_ok_settle)
    from "1.IH" [OF refl True this] True show ?thesis
      by (subst fill.simps) (simp add: Let_def)
  next
    case False
    with ok show ?thesis by (subst fill.simps) (simp add: Let_def)
  qed
qed

lemma window_ok_check_again: "window_ok w st \<Longrightarrow> window_ok w (check_again w st)"
  by (simp add: check_again_def window_ok_settle window_ok_check)

lemma converges_within:
  "window_ok w st \<Longrightarrow> gap_left w st \<le> Suc m \<Longrightarrow>
     \<exists>k \<le> m. fst (check w ((check_again w ^^ k) st) None None) = RFalse"
proof (induction m arbitrary: st)
  case 0
  have "fst (check w st None None) = RFalse"
  proof (rule ccontr)
    assume "fst (check w st None None) \<noteq> RFalse"
    then have "gap_left w (fst (snd (check w st None None))) < gap_left w st"
      by (rule check_not_false_grows)
    moreover have "1 \<le> gap_left w (fst (snd (check w st None None)))"
      using window_ok_gap [OF window_ok_check [OF "0.prems"(1)]] by simp
    ultimately show False using "0.prems"(2) by simp
  qed
  then show ?case by simp
next
  case (Suc m)
  show ?case
  proof (cases "fst (check w st None None) = RFalse")
    case True
    then have "fst (check w ((check_again w ^^ 0) st) None None) = RFalse" by simp
    then show ?thesis by blast
  next
    case False
    then have "gap_left w (fst (snd (check w st None None))) < gap_left w st"
      by (rule check_not_false_grows)
    then have g: "gap_left w (check_again w st) \<le> Suc m"
      using Suc.prems(2) by (simp add: check_again_def gap_left_settle)
    from Suc.IH [OF window_ok_check_again [OF Suc.prems(1)] g]
    obtain k where k: "k \<le> m"
      "fst (check w ((check_again w ^^ k) (check_again w st)) None None) = RFalse" by blast
    then have "fst (check w ((check_again w ^^ Suc k) st) None None) = RFalse"
      by (simp add: funpow_swap1)
    with k(1) show ?thesis by (metis Suc_le_mono)
  qed
qed

subsection \<open>Concrete states\<close>

text \<open>
  A manager with five views, of sections 0 to 4, of which only the middle one is
  displayed; the axis, the direction, the scroll policy of right-to-left documents and
  the scroll owner are parameters.
\<close>

definition example_geometry :: geometry where
  "example_geometry =
     \<lparr>scrollLeft = 100, scrollTop = 100, bounds_width = 800, bounds_height = 600,
      container_scrollLeft = 1000, container_scrollTop = 1000,
      container_scrollWidth = 3000, container_scrollHeight = 3000,
      window_scrollX = 1000, window_scrollY = 1000\<rparr>"

definition example_view :: "nat \<Rightarrow> bool \<Rightarrow> view" where
  "example_view i d =
     \<lparr>vid = i, vsection = i, displayed = d, shown = d, width = 601 / 2, height = 400\<rparr>"

definition example_manager :: "string \<Rightarrow> string \<Rightarrow> string \<Rightarrow> bool \<Rightarrow> manager" where
  "example_manager ax dir rst fs =
     \<lparr>settings = \<lparr>axis = Some ax, direction = Some dir, rtlScrollType = Some rst,
                  fullsize = fs, offset = Some 500\<rparr>,
      writingMode = None,
      geom = example_geometry,
      layout = \<lparr>layout_name = Some ''pre-paginated'', spread = True, delta = 400,
                layout_height = 600\<rparr>,
      isPaginated = True,
      views = [example_view 0 False, example_view 1 False, example_view 2 True,
               example_view 3 False, example_view 4 False],
      q = [],
      trimTimeout = None,
      nextId = 5\<rparr>"

text \<open>
  A document of five sections in which section 0 fails to render. Each section is
  1000 units long and lies at 1000 times its index; a view is visible when it meets
  the range around the scroll position. A window of \<open>n\<close> views has the content
  length 1000 \<open>n\<close> and is scrolled to 500 \<open>n\<close> - 400. \<open>example_start\<close> is a manager
  on a vertical axis whose window holds the view of section 2 only.
\<close>

definition example_world :: world where
  "example_world =
     \<lparr>spine_length = 5,
      request = (\<lambda>s. s \<noteq> 0),
      relayout = (\<lambda>vs. example_geometry
                    \<lparr>scrollTop := 1000 * real (length vs) / 2 - 400,
                     container_scrollHeight := 1000 * real (length vs)\<rparr>),
      isVisible = (\<lambda>g v a b. 1000 * (real (vsection v) + 1) > scrollTop g - a
                              \<and> 1000 * real (vsection v) < scrollTop g + bounds_height g + b),
      measured = (\<lambda>s. (800, 1000)),
      settle_time = (\<lambda>s. 10 + s)\<rparr>"

definition example_start :: manager where
  "example_start =
     (example_manager ''vertical'' ''ltr'' ''default'' False)
       \<lparr>views := [example_view 2 True],
        geom := relayout example_world [example_view 2 True]\<rparr>"

text \<open>
  A window of two views in range: the view of section 0, which is shown, is not
  displayed and fails to render; the view of section 1 is displayed and shown.
\<close>

definition example_rejecting :: manager where
  "example_rejecting =
     (example_manager ''vertical'' ''ltr'' ''default'' False)
       \<lparr>views := [(example_view 0 False)\<lparr>shown := True\<rparr>, example_view 1 True]\<rparr>"

lemmas example_simps = example_manager_def example_geometry_def example_view_def
  horizontal_def rtl_def writing_vertical_def raw_offset_def contentLength_def visibleLength_def

section \<open>Properties\<close>

subsection \<open>Scroll normalisation\<close>

lemma check_offset_cases:
  "check_offset st =
     (if \<not> fullsize (settings st) \<and> rtl st \<and> rtlScrollType (settings st) = Some ''default''
           \<and> \<not> writing_vertical st
      then contentLength st - visibleLength st - raw_offset st
      else if \<not> fullsize (settings st) \<and> rtl st \<and> rtlScrollType (settings st) = Some ''negative''
           \<and> \<not> writing_vertical st
      then - raw_offset st
      else if fullsize (settings st) \<and> rtl st \<and> rtlScrollType (settings st) = Some ''negative''
           \<and> horizontal st
      then - raw_offset st
      else if fullsize (settings st) \<and> rtl st \<and> rtlScrollType (settings st) = Some ''default''
           \<and> \<not> horizontal st
      then - raw_offset st
      else raw_offset st)"
  by (auto simp: check_offset_def Let_def)

text \<open>
  Claim C1, as amended. The normalised offset of \<^verbatim>\<open>check\<close> follows a table of
  four rules, each of which needs the direction to be right-to-left. Scroll owner
  not fullsize, policy \<^verbatim>\<open>default\<close>, horizontal writing mode: content length
  minus visible length minus the raw offset. Not fullsize, policy
  \<^verbatim>\<open>negative\<close>, horizontal writing mode: the raw offset negated. Fullsize,
  policy \<^verbatim>\<open>negative\<close>, horizontal axis: the raw offset negated. Fullsize,
  policy \<^verbatim>\<open>default\<close>, axis not horizontal: the raw offset negated. In every
  other combination the raw offset is unchanged.
\<close>

theorem check_offset_rule_table:
  "(\<not> fullsize (settings st) \<and> rtl st \<and> rtlScrollType (settings st) = Some ''default''
      \<and> \<not> writing_vertical st
      \<longrightarrow> check_offset st = contentLength st - visibleLength st - raw_offset st)
   \<and> (\<not> fullsize (settings st) \<and> rtl st \<and> rtlScrollType (settings st) = Some ''negative''
      \<and> \<not> writing_vertical st
      \<longrightarrow> check_offset st = - raw_offset st)
   \<and> (fullsize (settings st) \<and> rtl st \<and> rtlScrollType (settings st) = Some ''negative''
      \<and> horizontal st
      \<longrightarrow> check_offset st = - raw_offset st)
   \<and> (fullsize (settings st) \<and> rtl st \<and> rtlScrollType (settings st) = Some ''default''
      \<and> \<not> horizontal st
      \<longrightarrow> check_offset st = - raw_offset st)
   \<and> (\<not> (\<not> fullsize (settings st) \<and> rtl st \<and> rtlScrollType (settings st) = Some ''default''
          \<and> \<not> writing_vertical st)
      \<and> \<not> (\<not> fullsize (settings st) \<and> rtl st \<and> rtlScrollType (settings st) = Some ''negative''
          \<and> \<not> writing_vertical st)
      \<and> \<not> (fullsize (settings st) \<and> rtl st \<and> rtlScrollType (settings st) = Some ''negative''
          \<and> horizontal st)
      \<and> \<not> (fullsize (settings st) \<and> rtl st \<and> rtlScrollType (settings st) = Some ''default''
          \<and> \<not> horizontal st)
      \<longrightarrow> check_offset st = raw_offset st)"
  unfolding check_offset_cases by simp

text \<open>
  Claim C1, witness: the table at five concrete managers, one for each rule and one
  for the left-to-right direction, with raw offset 100, content length 3000 and
  visible length 800.
\<close>

theorem check_offset_rule_table_witness:
  "check_offset (example_manager ''horizontal'' ''rtl'' ''default'' False) = 3000 - 800 - 100
   \<and> check_offset (example_manager ''horizontal'' ''rtl'' ''negative'' False) = - 100
   \<and> check_offset (example_manager ''horizontal'' ''rtl'' ''negative'' True) = - 100
   \<and> check_offset (example_manager ''vertical'' ''rtl'' ''default'' True) = - 100
   \<and> check_offset (example_manager ''vertical'' ''ltr'' ''default'' True) = 100"
  using check_offset_rule_table [of "example_manager ''horizontal'' ''rtl'' ''default'' False"]
    check_offset_rule_table [of "example_manager ''horizontal'' ''rtl'' ''negative'' False"]
    check_offset_rule_table [of "example_manager ''horizontal'' ''rtl'' ''negative'' True"]
    check_offset_rule_table [of "example_manager ''vertical'' ''rtl'' ''default'' True"]
    check_offset_rule_table [of "example_manager ''vertical'' ''ltr'' ''default'' True"]
  by (simp add: example_simps)

text \<open>
  Claim C1, counterexample to the claim as stated. With a fullsize scroll owner, the
  policy \<^verbatim>\<open>default\<close>, a vertical axis and the direction right-to-left, a
  combination that is none of the three the claim lists, the raw offset 100 is
  negated, not left unchanged.
\<close>

theorem check_offset_fullsize_default_counterexample:
  "fullsize (settings (example_manager ''vertical'' ''rtl'' ''default'' True))
   \<and> rtlScrollType (settings (example_manager ''vertical'' ''rtl'' ''default'' True)) = Some ''default''
   \<and> raw_offset (example_manager ''vertical'' ''rtl'' ''default'' True) = 100
   \<and> check_offset (example_manager ''vertical'' ''rtl'' ''default'' True) = - 100"
  by (simp add: check_offset_def example_simps)

subsection \<open>The lookahead margin\<close>

text \<open>
  Claim C10. The margin of \<^verbatim>\<open>check\<close> is the hint for the active axis
  (\<^verbatim>\<open>_offsetLeft\<close> when the axis is horizontal, \<^verbatim>\<open>_offsetTop\<close>
  otherwise) when that hint is truthy, and \<^verbatim>\<open>settings.offset || 0\<close>
  otherwise, which is \<^verbatim>\<open>settings.offset\<close> whenever that is a number. A hint of
  0 does not override the margin, and the hint for the other axis is ignored.
\<close>

theorem check_delta_hint:
  "check_delta st offsetLeft offsetTop =
     (if truthy_num (if horizontal st then offsetLeft else offsetTop)
      then the (if horizontal st then offsetLeft else offsetTop)
      else or_zero (offset (settings st)))
   \<and> (horizontal st \<longrightarrow> check_delta st (Some 0) offsetTop = or_zero (offset (settings st)))
   \<and> (\<not> horizontal st \<longrightarrow> check_delta st offsetLeft (Some 0) = or_zero (offset (settings st)))
   \<and> (horizontal st \<longrightarrow> check_delta st offsetLeft offsetTop = check_delta st offsetLeft None)
   \<and> (\<not> horizontal st \<longrightarrow> check_delta st offsetLeft offsetTop = check_delta st None offsetTop)
   \<and> (\<forall>m. offset (settings st) = Some m \<longrightarrow> or_zero (offset (settings st)) = m)"
  by (auto simp: check_delta_def Let_def truthy_num_def or_zero_def)

text \<open>
  Claim C10, witness: with \<^verbatim>\<open>settings.offset\<close> 500, a horizontal axis and the
  hints (0, 70) the margin is 500, with the hints (120, 70) it is 120; on a vertical
  axis the hints (120, 0) give 500 and the hints (120, 70) give 70.
\<close>

theorem check_delta_hint_witness:
  "check_delta (example_manager ''horizontal'' ''ltr'' ''default'' False) (Some 0) (Some 70) = 500
   \<and> check_delta (example_manager ''horizontal'' ''ltr'' ''default'' False) (Some 120) (Some 70) = 120
   \<and> check_delta (example_manager ''vertical'' ''ltr'' ''default'' False) (Some 120) (Some 0) = 500
   \<and> check_delta (example_manager ''vertical'' ''ltr'' ''default'' False) (Some 120) (Some 70) = 70"
  using check_delta_hint [of "example_manager ''horizontal'' ''ltr'' ''default'' False" "Some 0" "Some 70"]
    check_delta_hint [of "example_manager ''horizontal'' ''ltr'' ''default'' False" "Some 120" "Some 70"]
    check_delta_hint [of "example_manager ''vertical'' ''ltr'' ''default'' False" "Some 120" "Some 0"]
    check_delta_hint [of "example_manager ''vertical'' ''ltr'' ''default'' False" "Some 120" "Some 70"]
  by (simp add: example_simps truthy_num_def or_zero_def)

subsection \<open>The gap setting\<close>

text \<open>
  Claim C9. When the settings of the options hold \<^verbatim>\<open>gap\<close> = 0, the settings of
  the manager hold \<^verbatim>\<open>gap\<close> = 0 after construction, whatever
  \<^verbatim>\<open>extend\<close> and the base class did with it. When the options do not hold
  \<^verbatim>\<open>gap\<close>, the constructor writes nothing to it: the settings are what the two
  calls of \<^verbatim>\<open>extend\<close> made.
\<close>

theorem constructor_gap_zero:
  "(opt_settings opts = Some os \<and> os ''gap'' = Some (JNum 0)
      \<longrightarrow> (\<exists>s. constructor_settings ext base opts = Inr s \<and> s ''gap'' = Some (JNum 0)))
   \<and> (opt_settings opts = Some os \<and> os ''gap'' = None
      \<longrightarrow> constructor_settings ext base opts =
            Inr (ext (ext (case base of None \<Rightarrow> Map.empty | Some b \<Rightarrow> b) continuous_defaults) os))"
  by (auto simp: constructor_settings_def Let_def get_prop_def neq_undefined_string_def)

text \<open>
  Claim C9, witness: \<^verbatim>\<open>extend\<close> taken to copy the properties of its second
  argument over the first, and a base class that left \<^verbatim>\<open>gap\<close> = 20. Options
  with \<^verbatim>\<open>gap\<close> = 0 give 0; options without \<^verbatim>\<open>gap\<close> give 20.
\<close>

theorem constructor_gap_zero_witness:
  "(\<exists>s. constructor_settings (\<lambda>t s. t ++ s) (Some [''gap'' \<mapsto> JNum 20])
          \<lparr>opt_settings = Some [''gap'' \<mapsto> JNum 0]\<rparr> = Inr s \<and> s ''gap'' = Some (JNum 0))
   \<and> (\<exists>s. constructor_settings (\<lambda>t s. t ++ s) (Some [''gap'' \<mapsto> JNum 20])
          \<lparr>opt_settings = Some [''axis'' \<mapsto> JStr ''vertical'']\<rparr> = Inr s \<and> s ''gap'' = Some (JNum 20))"
  using constructor_gap_zero [of "\<lparr>opt_settings = Some [''gap'' \<mapsto> JNum 0]\<rparr>" "[''gap'' \<mapsto> JNum 0]"
      "\<lambda>t s. t ++ s" "Some [''gap'' \<mapsto> JNum 20]"]
    constructor_gap_zero [of "\<lparr>opt_settings = Some [''axis'' \<mapsto> JStr ''vertical'']\<rparr>"
      "[''axis'' \<mapsto> JStr ''vertical'']" "\<lambda>t s. t ++ s" "Some [''gap'' \<mapsto> JNum 20]"]
  by (simp add: continuous_defaults_def map_add_def)

subsection \<open>Navigation\<close>

text \<open>
  Claim C7. \<^verbatim>\<open>next()\<close> followed by \<^verbatim>\<open>prev()\<close>, with nothing running in
  between, leaves every scroll position as it was before \<^verbatim>\<open>next()\<close>, and
  leaves the window, the settings and the layout untouched. On a non-empty window,
  when the manager is paginated on a horizontal axis, \<^verbatim>\<open>next()\<close> adds the step
  (doubled for a pre-paginated spread) to the horizontal position of the scroll owner
  and \<^verbatim>\<open>prev()\<close> subtracts it; otherwise they add and subtract the height of
  the layout on the vertical position.
\<close>

theorem next_prev_inverse:
  "geom (mgr_prev (mgr_next st)) = geom st
   \<and> views (mgr_prev (mgr_next st)) = views st
   \<and> settings (mgr_prev (mgr_next st)) = settings st
   \<and> layout (mgr_prev (mgr_next st)) = layout st
   \<and> (views st \<noteq> [] \<and> isPaginated st \<and> axis (settings st) = Some ''horizontal''
        \<longrightarrow> owner_left (mgr_next st) = owner_left st + step_delta st
          \<and> owner_left (mgr_prev st) = owner_left st - step_delta st
          \<and> owner_top (mgr_next st) = owner_top st
          \<and> owner_top (mgr_prev st) = owner_top st)
   \<and> (views st \<noteq> [] \<and> \<not> (isPaginated st \<and> axis (settings st) = Some ''horizontal'')
        \<longrightarrow> owner_top (mgr_next st) = owner_top st + layout_height (layout st)
          \<and> owner_top (mgr_prev st) = owner_top st - layout_height (layout st)
          \<and> owner_left (mgr_next st) = owner_left st
          \<and> owner_left (mgr_prev st) = owner_left st)"
  by (simp add: mgr_next_def mgr_prev_def scrollBy_def step_delta_def Let_def
      owner_left_def owner_top_def)

text \<open>
  Claim C7, witness: a paginated manager on a horizontal axis with a pre-paginated
  spread of step 400 moves from 1000 to 1800 and back to 1000; on a vertical axis it
  moves by the layout height 600, from 1000 to 1600 and back.
\<close>

theorem next_prev_inverse_witness:
  "owner_left (mgr_next (example_manager ''horizontal'' ''ltr'' ''default'' False)) = 1800
   \<and> owner_left (mgr_prev (mgr_next (example_manager ''horizontal'' ''ltr'' ''default'' False))) = 1000
   \<and> owner_top (mgr_next (example_manager ''vertical'' ''ltr'' ''default'' False)) = 1600
   \<and> owner_top (mgr_prev (mgr_next (example_manager ''vertical'' ''ltr'' ''default'' False))) = 1000"
  using next_prev_inverse [of "example_manager ''horizontal'' ''ltr'' ''default'' False"]
    next_prev_inverse [of "example_manager ''vertical'' ''ltr'' ''default'' False"]
  by (simp add: example_simps owner_left_def owner_top_def step_delta_def)

subsection \<open>Eviction\<close>

text \<open>
  Claim C4, as amended. When \<^verbatim>\<open>erase\<close> evicts a view as an "above" view it
  removes the view from the window and then sets the scroll position of the scroll
  owner from the position P it read before the removal and the extent the view
  reported before the removal: on a vertical axis the vertical position becomes P
  minus the height of the view; on any other axis the horizontal position becomes P
  minus the floor of the width when the direction is not right-to-left, P plus the
  floor of the width when the direction is right-to-left and the scroll owner is
  fullsize, and stays P when the direction is right-to-left and the scroll owner is
  not fullsize. The other coordinate is set to 0.
\<close>

theorem erase_above_compensation:
  "views (erase v True st) = views_remove v (views st)
   \<and> (axis (settings st) = Some ''vertical''
        \<longrightarrow> owner_top (erase v True st) = owner_top st - height v
          \<and> owner_left (erase v True st) = 0)
   \<and> (axis (settings st) \<noteq> Some ''vertical'' \<and> direction (settings st) \<noteq> Some ''rtl''
        \<longrightarrow> owner_left (erase v True st) = owner_left st - of_int \<lfloor>width v\<rfloor>
          \<and> owner_top (erase v True st) = 0)
   \<and> (axis (settings st) \<noteq> Some ''vertical'' \<and> direction (settings st) = Some ''rtl''
        \<and> fullsize (settings st)
        \<longrightarrow> owner_left (erase v True st) = owner_left st + of_int \<lfloor>width v\<rfloor>
          \<and> owner_top (erase v True st) = 0)
   \<and> (axis (settings st) \<noteq> Some ''vertical'' \<and> direction (settings st) = Some ''rtl''
        \<and> \<not> fullsize (settings st)
        \<longrightarrow> owner_left (erase v True st) = owner_left st
          \<and> owner_top (erase v True st) = 0)"
  by (simp add: erase_def Let_def scrollTo_def owner_left_def owner_top_def)

text \<open>
  Claim C4, witness: a view 300.5 wide and 400 high, scroll position (1000, 1000).
  Vertical axis: 600. Horizontal axis, left-to-right: 700. Horizontal axis,
  right-to-left, fullsize: 1300. Horizontal axis, right-to-left, not fullsize: 1000.
\<close>

theorem erase_above_compensation_witness:
  "owner_top (erase (example_view 0 False) True (example_manager ''vertical'' ''ltr'' ''default'' False)) = 600
   \<and> owner_left (erase (example_view 0 False) True (example_manager ''horizontal'' ''ltr'' ''default'' False)) = 700
   \<and> owner_left (erase (example_view 0 False) True (example_manager ''horizontal'' ''rtl'' ''default'' True)) = 1300
   \<and> owner_left (erase (example_view 0 False) True (example_manager ''horizontal'' ''rtl'' ''default'' False)) = 1000"
  using erase_above_compensation [of "example_view 0 False" "example_manager ''vertical'' ''ltr'' ''default'' False"]
   erase_above_compensation [of "example_view 0 False" "example_manager ''horizontal'' ''ltr'' ''default'' False"]
   erase_above_compensation [of "example_view 0 False" "example_manager ''horizontal'' ''rtl'' ''default'' True"]
   erase_above_compensation [of "example_view 0 False" "example_manager ''horizontal'' ''rtl'' ''default'' False"]
  by (simp add: example_simps owner_left_def owner_top_def)

text \<open>
  Claim C4, counterexample to the claim as stated. On a horizontal axis, with the
  direction right-to-left and a scroll owner that is not fullsize, evicting an "above"
  view of width 300.5 at the horizontal position 1000 leaves the position at 1000:
  it is neither decreased nor increased by the extent of the view.
\<close>

theorem erase_rtl_container_counterexample:
  "axis (settings (example_manager ''horizontal'' ''rtl'' ''default'' False)) = Some ''horizontal''
   \<and> direction (settings (example_manager ''horizontal'' ''rtl'' ''default'' False)) = Some ''rtl''
   \<and> \<not> fullsize (settings (example_manager ''horizontal'' ''rtl'' ''default'' False))
   \<and> width (example_view 0 False) = 601 / 2
   \<and> owner_left (example_manager ''horizontal'' ''rtl'' ''default'' False) = 1000
   \<and> owner_left (erase (example_view 0 False) True
        (example_manager ''horizontal'' ''rtl'' ''default'' False)) = 1000"
  by (simp add: erase_def Let_def scrollTo_def owner_left_def example_simps)

text \<open>
  The window after \<^verbatim>\<open>trim\<close>. Each call of \<^verbatim>\<open>erase\<close> removes one view
  by identity; in a window that holds no view twice that is a filter, and the views
  that survive both loops are a contiguous slice of the window.
\<close>

lemma views_erase: "views (erase v b st) = remove_vid (vid v) (views st)"
  by (simp add: erase_def Let_def scrollTo_def views_remove_def)

lemma views_fold_erase:
  "views (fold (\<lambda>i s. erase (xs ! i) b s) is st) = fold (\<lambda>i. remove_vid (vid (xs ! i))) is (views st)"
  by (induction "is" arbitrary: st) (simp_all add: views_erase)

lemma remove_vid_filter:
  "distinct (map vid vs) \<Longrightarrow> remove_vid x vs = filter (\<lambda>v. vid v \<noteq> x) vs"
proof (induction vs)
  case Nil
  then show ?case by simp
next
  case (Cons v vs)
  show ?case
  proof (cases "vid v = x")
    case True
    with Cons.prems have "\<forall>u \<in> set vs. vid u \<noteq> x" by (auto simp: image_iff)
    then have "filter (\<lambda>v. vid v \<noteq> x) vs = vs" by (simp add: filter_id_conv)
    with True show ?thesis by simp
  next
    case False
    with Cons show ?thesis by simp
  qed
qed

lemma fold_remove_filter:
  "distinct (map vid vs) \<Longrightarrow>
     fold (\<lambda>i. remove_vid (vid (xs ! i))) is vs
       = filter (\<lambda>v. vid v \<notin> (\<lambda>i. vid (xs ! i)) ` set is) vs"
proof (induction "is" arbitrary: vs)
  case Nil
  then show ?case by simp
next
  case (Cons i "is")
  have d: "distinct (map vid (filter (\<lambda>v. vid v \<noteq> vid (xs ! i)) vs))"
    using Cons.prems by (rule distinct_map_filter)
  have "fold (\<lambda>i. remove_vid (vid (xs ! i))) (i # is) vs
      = fold (\<lambda>i. remove_vid (vid (xs ! i))) is (filter (\<lambda>v. vid v \<noteq> vid (xs ! i)) vs)"
    using Cons.prems by (simp add: remove_vid_filter)
  also have "\<dots> = filter (\<lambda>v. vid v \<notin> (\<lambda>i. vid (xs ! i)) ` set is)
                      (filter (\<lambda>v. vid v \<noteq> vid (xs ! i)) vs)"
    using d by (rule Cons.IH)
  also have "\<dots> = filter (\<lambda>v. vid v \<notin> (\<lambda>i. vid (xs ! i)) ` set (i # is)) vs"
    by (auto intro: filter_cong)
  finally show ?case .
qed

lemma butlast_indices: "(\<lambda>i. vid (xs ! i)) ` set [0..<length xs - 1] = vid ` set (butlast xs)"
proof -
  have "map (\<lambda>i. xs ! i) [0..<length xs - 1] = butlast xs"
    by (simp add: list_eq_iff_nth_eq nth_butlast)
  then have "set (butlast xs) = (\<lambda>i. xs ! i) ` set [0..<length xs - 1]"
    by (metis set_map)
  then show ?thesis by (simp add: image_image)
qed

lemma tl_indices: "(\<lambda>j. vid (xs ! j)) ` set [1..<length xs] = vid ` set (tl xs)"
proof -
  have "map (\<lambda>i. xs ! i) [1..<length xs] = tl xs"
    by (simp add: list_eq_iff_nth_eq nth_tl)
  then have "set (tl xs) = (\<lambda>i. xs ! i) ` set [1..<length xs]"
    by (metis set_map)
  then show ?thesis by (simp add: image_image)
qed

lemma filter_three_parts:
  "distinct (map vid (X @ K @ Y)) \<Longrightarrow>
     filter (\<lambda>v. vid v \<notin> vid ` set Y) (filter (\<lambda>v. vid v \<notin> vid ` set X) (X @ K @ Y)) = K"
proof -
  assume d: "distinct (map vid (X @ K @ Y))"
  have x: "filter (\<lambda>v. vid v \<notin> vid ` set X) X = []"
    by (simp add: filter_empty_conv)
  have k1: "filter (\<lambda>v. vid v \<notin> vid ` set X) K = K"
    using d by (auto simp: filter_id_conv)
  have y1: "filter (\<lambda>v. vid v \<notin> vid ` set X) Y = Y"
    using d by (auto simp: filter_id_conv)
  have k2: "filter (\<lambda>v. vid v \<notin> vid ` set Y) K = K"
    using d by (auto simp: filter_id_conv)
  have y2: "filter (\<lambda>v. vid v \<notin> vid ` set Y) Y = []"
    by (simp add: filter_empty_conv)
  show ?thesis by (simp add: x k1 y1 k2 y2)
qed

lemma index_from_append:
  "\<forall>a \<in> set A. vid a \<noteq> vid f \<Longrightarrow> index_from (vid f) k (A @ f # R) = int (k + length A)"
  by (induction A arbitrary: k) simp_all

lemma js_slice_take: "i \<le> length xs \<Longrightarrow> js_slice xs 0 (Some (int i)) = take i xs"
  by (simp add: js_slice_def js_bound_def Let_def)

lemma js_slice_drop: "js_slice xs (int j + 1) None = drop (j + 1) xs"
  by (cases "Suc j \<le> length xs") (simp_all add: js_slice_def js_bound_def Let_def nat_add_distrib min_def)


lemma split_three: "n \<le> m \<Longrightarrow> xs = take n xs @ drop n (take m xs) @ drop m xs"
proof -
  assume nm: "n \<le> m"
  have "take m xs = take n (take m xs) @ drop n (take m xs)"
    by (rule append_take_drop_id [symmetric])
  also have "take n (take m xs) = take n xs" using nm by (simp add: min_def)
  finally have a: "take m xs = take n xs @ drop n (take m xs)" .
  have "xs = take m xs @ drop m xs" by (rule append_take_drop_id [symmetric])
  then have "xs = (take n xs @ drop n (take m xs)) @ drop m xs" by (simp only: a [symmetric])
  then show ?thesis by (simp only: append_assoc)
qed

lemma first_before_last:
  assumes f: "vs = A @ f # R" "displayed f"
    and l: "vs = P @ l # B" "\<forall>b \<in> set B. \<not> displayed b"
  shows "length A \<le> length P"
proof (rule ccontr)
  assume "\<not> length A \<le> length P"
  then have lt: "length P < length A" by simp
  have a_lt: "length A < length vs" using f(1) by simp
  have len: "length vs = length P + 1 + length B" using l(1) by simp
  have "vs ! length A = f" using f(1) by simp
  moreover have "vs ! length A = B ! (length A - length P - 1)"
    using lt by (simp add: l(1) nth_append nth_Cons')
  moreover have "length A - length P - 1 < length B"
    using a_lt len lt by simp
  ultimately have "f \<in> set B" by (metis nth_mem)
  with l(2) f(2) show False by simp
qed

lemma trim_views_decomp:
  assumes d: "distinct (map vid (views st))"
    and f: "views st = A @ f # R" "\<forall>a \<in> set A. \<not> displayed a" "displayed f"
    and l: "views st = P @ l # B" "\<forall>b \<in> set B. \<not> displayed b" "displayed l"
  shows "views (trim st) = drop (length A - 1) (take (length P + 2) (views st))"
proof -
  let ?vs = "views st"
  let ?disp = "views_displayed ?vs"
  have ap: "length A \<le> length P"
    using f(1) f(3) l(1) l(2) by (rule first_before_last)
  have dispf: "?disp = f # filter displayed R"
    using f by (simp add: views_displayed_def filter_empty_conv)
  have displ: "?disp = filter displayed P @ [l]"
    using l by (simp add: views_displayed_def filter_empty_conv)
  have first: "js_index ?disp 0 = Some f"
    by (simp add: dispf js_index_def)
  have lst: "js_index ?disp (int (length ?disp) - 1) = Some l"
    by (simp add: displ js_index_def)
  have "\<forall>a \<in> set A. vid a \<noteq> vid f"
    using d by (auto simp: f(1) image_iff)
  then have fi: "views_indexOf (Some f) ?vs = int (length A)"
    using index_from_append [of A f 0 R] by (simp add: views_indexOf_def f(1))
  have "\<forall>a \<in> set P. vid a \<noteq> vid l"
    using d by (auto simp: l(1) image_iff)
  then have li: "views_indexOf (Some l) ?vs = int (length P)"
    using index_from_append [of P l 0 B] by (simp add: views_indexOf_def l(1))
  have ab: "js_slice ?vs 0 (Some (int (length A))) = A"
    using js_slice_take [of "length A" ?vs] by (simp add: f(1))
  have be: "js_slice ?vs (int (length P) + 1) None = B"
    using js_slice_drop [of ?vs "length P"] by (simp add: l(1))
  have tr: "views (trim st) =
      fold (\<lambda>j. remove_vid (vid (B ! j))) [1..<length B]
        (fold (\<lambda>i. remove_vid (vid (A ! i))) [0..<length A - 1] ?vs)"
    by (simp add: trim_def Let_def first lst fi li ab be views_fold_erase)
  have s1: "fold (\<lambda>i. remove_vid (vid (A ! i))) [0..<length A - 1] ?vs
            = filter (\<lambda>v. vid v \<notin> vid ` set (butlast A)) ?vs"
    using fold_remove_filter [OF d, of A "[0..<length A - 1]"] by (simp only: butlast_indices)
  have d1: "distinct (map vid (filter (\<lambda>v. vid v \<notin> vid ` set (butlast A)) ?vs))"
    using d by (rule distinct_map_filter)
  have s2: "views (trim st) = filter (\<lambda>v. vid v \<notin> vid ` set (tl B))
                                (filter (\<lambda>v. vid v \<notin> vid ` set (butlast A)) ?vs)"
    unfolding tr s1 using fold_remove_filter [OF d1, of B "[1..<length B]"]
    by (simp only: tl_indices)
  have bl: "butlast A = take (length A - 1) ?vs"
    by (simp add: f(1) butlast_conv_take)
  have tlb: "tl B = drop (length P + 2) ?vs"
    by (simp add: l(1) drop_Suc)
  have "length A - 1 \<le> length P + 2" using ap by simp
  then have sp: "?vs = butlast A @ drop (length A - 1) (take (length P + 2) ?vs) @ tl B"
    unfolding bl tlb by (rule split_three)
  let ?K = "drop (length A - 1) (take (length P + 2) ?vs)"
  have dd: "distinct (map vid (butlast A @ ?K @ tl B))"
    using d sp by simp
  have "views (trim st) = filter (\<lambda>v. vid v \<notin> vid ` set (tl B))
                                (filter (\<lambda>v. vid v \<notin> vid ` set (butlast A)) ?vs)"
    by (rule s2)
  also have "\<dots> = filter (\<lambda>v. vid v \<notin> vid ` set (tl B))
                      (filter (\<lambda>v. vid v \<notin> vid ` set (butlast A)) (butlast A @ ?K @ tl B))"
    by (rule arg_cong [OF sp, of "\<lambda>z. filter (\<lambda>v. vid v \<notin> vid ` set (tl B))
                      (filter (\<lambda>v. vid v \<notin> vid ` set (butlast A)) z)"])
  also have "\<dots> = ?K" by (rule filter_three_parts [OF dd])
  finally show ?thesis .
qed

text \<open>
  Claim C3. In a window that holds no view object twice and has at least one
  displayed view, after \<^verbatim>\<open>trim\<close> at most one view that is not displayed stands
  before the first displayed view and at most one after the last displayed view.
  The window after \<^verbatim>\<open>trim\<close> is the window before it without all but the last
  of the views that preceded the first displayed view and without all but the first of
  the views that followed the last displayed view: the neighbour of the displayed
  range on each side is kept.
\<close>

theorem trim_eviction_bound:
  assumes d: "distinct (map vid (views st))"
    and ex: "\<exists>v \<in> set (views st). displayed v"
  shows "length (takeWhile (\<lambda>v. \<not> displayed v) (views (trim st))) \<le> 1
     \<and> length (takeWhile (\<lambda>v. \<not> displayed v) (rev (views (trim st)))) \<le> 1
     \<and> views (trim st) =
         drop (length (takeWhile (\<lambda>v. \<not> displayed v) (views st)) - 1)
           (take (length (views st)
                   - (length (takeWhile (\<lambda>v. \<not> displayed v) (rev (views st))) - 1))
              (views st))"
proof -
  let ?vs = "views st"
  let ?nd = "\<lambda>v. \<not> displayed v"
  from split_list_first_prop [OF ex]
  obtain A f R where f: "?vs = A @ f # R" "displayed f" "\<forall>a \<in> set A. \<not> displayed a"
    by blast
  from split_list_last_prop [OF ex]
  obtain P l B where l: "?vs = P @ l # B" "displayed l" "\<forall>b \<in> set B. \<not> displayed b"
    by blast
  have ap: "length A \<le> length P"
    using f(1) f(2) l(1) l(3) by (rule first_before_last)
  let ?K = "drop (length A - 1) (take (length P + 2) ?vs)"
  have K: "views (trim st) = ?K"
    using d f(1) f(3) f(2) l(1) l(3) l(2) by (rule trim_views_decomp)
  have twA: "takeWhile ?nd ?vs = A"
    using f by simp
  have rb: "\<And>x. x \<in> set (rev B) \<Longrightarrow> \<not> displayed x"
    using l(3) by simp
  have "takeWhile ?nd (rev B @ l # rev P) = rev B @ takeWhile ?nd (l # rev P)"
    by (rule takeWhile_append2) (rule rb)
  then have twB: "takeWhile ?nd (rev ?vs) = rev B"
    using l(2) by (simp add: l(1))
  have tk: "take (length ?vs - (length B - 1)) ?vs = take (length P + 2) ?vs"
    by (cases B) (simp_all add: l(1))
  have K1: "?K = drop (length A - 1) A @ f # take (length P + 1 - length A) R"
    using ap by (simp add: f(1) Suc_diff_le)
  have ra: "\<And>x. x \<in> set (drop (length A - 1) A) \<Longrightarrow> \<not> displayed x"
    using f(3) by (auto dest: in_set_dropD)
  have "takeWhile ?nd (drop (length A - 1) A @ f # take (length P + 1 - length A) R)
          = drop (length A - 1) A @ takeWhile ?nd (f # take (length P + 1 - length A) R)"
    by (rule takeWhile_append2) (rule ra)
  then have "takeWhile ?nd ?K = drop (length A - 1) A"
    unfolding K1 using f(2) by simp
  then have c1: "length (takeWhile ?nd ?K) \<le> 1" by simp
  have K2: "?K = drop (length A - 1) P @ l # take 1 B"
    using ap by (simp add: l(1))
  have "rev ?K = rev (take 1 B) @ l # rev (drop (length A - 1) P)"
    unfolding K2 by simp
  moreover have rt: "\<And>x. x \<in> set (rev (take 1 B)) \<Longrightarrow> \<not> displayed x"
    using l(3) by (auto dest: in_set_takeD)
  moreover have "takeWhile ?nd (rev (take 1 B) @ l # rev (drop (length A - 1) P))
          = rev (take 1 B) @ takeWhile ?nd (l # rev (drop (length A - 1) P))"
    by (rule takeWhile_append2) (rule rt)
  ultimately have "takeWhile ?nd (rev ?K) = rev (take 1 B)"
    using l(2) by simp
  then have c2: "length (takeWhile ?nd (rev ?K)) \<le> 1" by simp
  have c3: "?K = drop (length A - 1) (take (length ?vs - (length (rev B) - 1)) ?vs)"
    by (simp only: length_rev tk)
  show ?thesis
    unfolding K twA twB by (intro conjI) (rule c1, rule c2, rule c3)
qed

text \<open>
  Claim C3, witness: a window of five views of which only the middle one is
  displayed; \<^verbatim>\<open>trim\<close> keeps the middle view and its two neighbours.
\<close>

theorem trim_eviction_bound_witness:
  "distinct (map vid (views (example_manager ''vertical'' ''ltr'' ''default'' False)))
   \<and> (\<exists>v \<in> set (views (example_manager ''vertical'' ''ltr'' ''default'' False)). displayed v)
   \<and> length (takeWhile (\<lambda>v. \<not> displayed v)
        (views (trim (example_manager ''vertical'' ''ltr'' ''default'' False)))) \<le> 1
   \<and> length (takeWhile (\<lambda>v. \<not> displayed v)
        (rev (views (trim (example_manager ''vertical'' ''ltr'' ''default'' False))))) \<le> 1
   \<and> views (trim (example_manager ''vertical'' ''ltr'' ''default'' False))
       = [example_view 1 False, example_view 2 True, example_view 3 False]"
proof -
  let ?st = "example_manager ''vertical'' ''ltr'' ''default'' False"
  have d: "distinct (map vid (views ?st))"
    by (simp add: example_manager_def example_view_def)
  have e: "\<exists>v \<in> set (views ?st). displayed v"
    by (simp add: example_manager_def example_view_def)
  from trim_eviction_bound [OF d e] d e show ?thesis
    by (simp add: example_manager_def example_view_def)
qed

subsection \<open>The visibility pass\<close>

lemmas example_update_simps = Let_def update_offset_def or_zero_def example_manager_def
  example_geometry_def example_view_def example_world_def example_rejecting_def

lemma update_views_nth:
  assumes i: "i < length (views st)"
    and u: "i \<noteq> length (views st) - 1
            \<or> (\<forall>u \<in> set (views st). isVisible w (geom st) u (update_offset st offs)
                   (update_offset st offs) \<and> \<not> displayed u \<longrightarrow> request w (vsection u))"
  shows "views (snd (update w st offs)) ! i
     = (if isVisible w (geom st) (views st ! i) (update_offset st offs) (update_offset st offs)
           \<and> \<not> displayed (views st ! i) \<and> request w (vsection (views st ! i))
        then view_show (sync_view w (geom st) (update_offset st offs) (views st ! i))
        else sync_view w (geom st) (update_offset st offs) (views st ! i))"
proof -
  let ?off = "update_offset st offs"
  let ?g = "geom st"
  let ?ps = "sort_key (\<lambda>p. settle_time w (vsection (views st ! fst p)))
               (started_promises w ?g ?off (views st))"
  let ?S = "st\<lparr>views := map (sync_view w ?g ?off) (views st),
                q := q st @ map (\<lambda>v. TaskDestroy (vid v))
                       (filter (\<lambda>v. \<not> isVisible w ?g v ?off ?off) (views st)),
                trimTimeout := (if \<exists>v \<in> set (views st). \<not> isVisible w ?g v ?off ?off
                                then Some 250 else trimTimeout st)\<rparr>"
  have sp: "set ?ps = set (started_promises w ?g ?off (views st))" by simp
  have iS: "i < length (views ?S)" using i by simp
  have side: "i \<noteq> length (views st) - 1 \<or> (\<forall>p \<in> set ?ps. snd p \<noteq> Rejected)"
    using u unfolding sp started_no_reject by blast
  have "views (snd (update w st offs)) ! i
          = views (fold (run_handler (length (views st) - 1)) ?ps ?S) ! i"
    by (simp add: update_eq Let_def)
  also have "\<dots> = (if (i, Fulfilled) \<in> set ?ps then view_show (views ?S ! i) else views ?S ! i)"
    using iS side by (rule fold_run_handler_nth)
  finally show ?thesis
    unfolding sp started_fulfilled_iff using i by simp
qed

text \<open>
  Claim C2, as amended. One pass of \<^verbatim>\<open>update\<close> does the following for every
  view of the window other than the last one, and for the last one too when no
  display started in the pass is rejected. If the view is visible (its bounds, widened
  by the margin, meet the visible range) and not yet displayed, and its render
  succeeds, it is displayed and then shown. If it is visible and already displayed it
  is shown, which changes nothing when it was shown before. If it is not visible, the
  view itself is left as it is (it is not marked hidden). For every view that is not
  visible, the last one included, a task that destroys it is put on the queue instead
  of being run inline, and the timer that will put the eviction scan on the queue
  after 250 time units is armed, replacing any timer armed before. The pass puts
  nothing on the queue but these destroy tasks; when every view is visible the timer is
  not touched.
\<close>

theorem update_visibility_pass:
  "i < length (views st) \<Longrightarrow>
   (let off = update_offset st offs;
        v = views st ! i;
        st' = snd (update w st offs);
        v' = views st' ! i;
        undisturbed =
          (i \<noteq> length (views st) - 1
           \<or> (\<forall>u \<in> set (views st). isVisible w (geom st) u off off \<and> \<not> displayed u
                  \<longrightarrow> request w (vsection u)))
    in length (views st') = length (views st)
       \<and> (undisturbed \<and> isVisible w (geom st) v off off \<and> \<not> displayed v
            \<and> request w (vsection v)
            \<longrightarrow> v' = v\<lparr>displayed := True, shown := True\<rparr>)
       \<and> (undisturbed \<and> isVisible w (geom st) v off off \<and> displayed v
            \<longrightarrow> v' = v\<lparr>shown := True\<rparr>)
       \<and> (undisturbed \<and> \<not> isVisible w (geom st) v off off \<longrightarrow> v' = v)
       \<and> (\<not> isVisible w (geom st) v off off
            \<longrightarrow> TaskDestroy (vid v) \<in> set (q st') \<and> trimTimeout st' = Some 250)
       \<and> q st' = q st @ map (\<lambda>v. TaskDestroy (vid v))
                          (filter (\<lambda>v. \<not> isVisible w (geom st) v off off) (views st))
       \<and> ((\<forall>v \<in> set (views st). isVisible w (geom st) v off off)
            \<longrightarrow> trimTimeout st' = trimTimeout st))"
proof -
  assume i: "i < length (views st)"
  let ?off = "update_offset st offs"
  let ?v = "views st ! i"
  let ?st' = "snd (update w st offs)"
  let ?und = "i \<noteq> length (views st) - 1
           \<or> (\<forall>u \<in> set (views st). isVisible w (geom st) u ?off ?off \<and> \<not> displayed u
                  \<longrightarrow> request w (vsection u))"
  have len: "length (views ?st') = length (views st)"
    by (simp add: update_eq Let_def fold_run_handler_length)
  have qq: "q ?st' = q st @ map (\<lambda>v. TaskDestroy (vid v))
                          (filter (\<lambda>v. \<not> isVisible w (geom st) v ?off ?off) (views st))"
    by (simp add: update_eq Let_def fold_run_handler_q)
  have tt: "trimTimeout ?st' = (if \<exists>v \<in> set (views st). \<not> isVisible w (geom st) v ?off ?off
                                then Some 250 else trimTimeout st)"
    by (simp add: update_eq Let_def fold_run_handler_trimTimeout)
  have vin: "?v \<in> set (views st)" using i by simp
  have nth: "?und \<Longrightarrow> views ?st' ! i
     = (if isVisible w (geom st) ?v ?off ?off \<and> \<not> displayed ?v \<and> request w (vsection ?v)
        then view_show (sync_view w (geom st) ?off ?v)
        else sync_view w (geom st) ?off ?v)"
    using update_views_nth [OF i, of w offs] by blast
  have a: "?und \<and> isVisible w (geom st) ?v ?off ?off \<and> \<not> displayed ?v
            \<and> request w (vsection ?v)
            \<longrightarrow> views ?st' ! i = ?v\<lparr>displayed := True, shown := True\<rparr>"
    using nth by (auto simp: sync_view_def view_display_def view_show_def)
  have b: "?und \<and> isVisible w (geom st) ?v ?off ?off \<and> displayed ?v
            \<longrightarrow> views ?st' ! i = ?v\<lparr>shown := True\<rparr>"
    using nth by (auto simp: sync_view_def view_show_def)
  have c: "?und \<and> \<not> isVisible w (geom st) ?v ?off ?off \<longrightarrow> views ?st' ! i = ?v"
    using nth by (auto simp: sync_view_def)
  have d: "\<not> isVisible w (geom st) ?v ?off ?off
            \<longrightarrow> TaskDestroy (vid ?v) \<in> set (q ?st') \<and> trimTimeout ?st' = Some 250"
    using vin by (auto simp: qq tt)
  have e: "(\<forall>v \<in> set (views st). isVisible w (geom st) v ?off ?off)
            \<longrightarrow> trimTimeout ?st' = trimTimeout st"
    by (simp add: tt)
  from len a b c d qq e show ?thesis
    unfolding Let_def by blast
qed

text \<open>
  Claim C2, witness: the five-view window at scroll position 100 with margin 500.
  The view of section 1 is visible, not displayed and renders: displayed and shown.
  The view of section 2 is not visible: unchanged, its destroy task queued, the timer
  armed with 250. With margin 1500 the view of section 2 is visible and displayed:
  shown. None of the three is the last view of the window.
\<close>

theorem update_visibility_pass_witness:
  "views (snd (update example_world (example_manager ''vertical'' ''ltr'' ''default'' False) None)) ! 1
     = (example_view 1 False)\<lparr>displayed := True, shown := True\<rparr>
   \<and> views (snd (update example_world (example_manager ''vertical'' ''ltr'' ''default'' False) None)) ! 2
     = example_view 2 True
   \<and> TaskDestroy 2 \<in> set (q (snd (update example_world
        (example_manager ''vertical'' ''ltr'' ''default'' False) None)))
   \<and> trimTimeout (snd (update example_world
        (example_manager ''vertical'' ''ltr'' ''default'' False) None)) = Some 250
   \<and> views (snd (update example_world (example_manager ''vertical'' ''ltr'' ''default'' False) (Some 1500))) ! 2
     = (example_view 2 True)\<lparr>shown := True\<rparr>"
  using update_visibility_pass [of 1 "example_manager ''vertical'' ''ltr'' ''default'' False" None example_world]
    update_visibility_pass [of 2 "example_manager ''vertical'' ''ltr'' ''default'' False" None example_world]
    update_visibility_pass [of 2 "example_manager ''vertical'' ''ltr'' ''default'' False" "Some 1500" example_world]
  by (simp add: example_update_simps)

text \<open>
  Claim C2, counterexample to the claim as stated. The view of section 2 is shown,
  and it does not meet the visible range; after the pass it is still shown. What the
  pass did for the views out of range is to queue their destroy tasks.
\<close>

theorem update_not_hidden_counterexample:
  "\<not> isVisible example_world (geom (example_manager ''vertical'' ''ltr'' ''default'' False))
        (views (example_manager ''vertical'' ''ltr'' ''default'' False) ! 2) 500 500
   \<and> shown (views (example_manager ''vertical'' ''ltr'' ''default'' False) ! 2)
   \<and> shown (views (snd (update example_world
        (example_manager ''vertical'' ''ltr'' ''default'' False) None)) ! 2)
   \<and> q (snd (update example_world (example_manager ''vertical'' ''ltr'' ''default'' False) None))
       = [TaskDestroy 2, TaskDestroy 3, TaskDestroy 4]"
  by (simp add: update_eq sync_view_def started_promises_def run_handler_def view_display_def
      view_show_def view_hide_def example_update_simps)

text \<open>
  Claim C8, the code at the failing input. The window holds two views, both in
  range: the first is not displayed and its section fails to render, the second is
  displayed and shown. The rejection handler of the first view's display hides the
  view that the variable \<^verbatim>\<open>view\<close> holds when it runs, which is the last view
  of the window. So the first view, whose render failed, is not hidden: it was shown
  and stays shown. The second view, which is healthy, ends hidden. The promise that
  \<^verbatim>\<open>update\<close> returns still resolves, to an array of one entry. When the first
  view was not shown before the pass, both views end not shown.
\<close>

theorem update_rejection_hides_last_view:
  "map vsection (views example_rejecting) = [0, 1]
   \<and> map displayed (views example_rejecting) = [False, True]
   \<and> map shown (views example_rejecting) = [True, True]
   \<and> list_all (\<lambda>v. isVisible example_world (geom example_rejecting) v 500 500)
        (views example_rejecting)
   \<and> \<not> request example_world 0
   \<and> request example_world 1
   \<and> map shown (views (snd (update example_world example_rejecting None))) = [True, False]
   \<and> fst (update example_world example_rejecting None) = RArray 1
   \<and> map shown (views (snd (update example_world
         (example_rejecting\<lparr>views := [example_view 0 False, example_view 1 True]\<rparr>) None)))
       = [False, False]"
  by (simp add: update_eq sync_view_def started_promises_def run_handler_def view_display_def
      view_show_def view_hide_def example_update_simps)

subsection \<open>Growth of the window\<close>

lemma check_growth_eq:
  "snd (check_pass w st l t) \<noteq> [] \<Longrightarrow>
   promise_all (new_promises w (snd (check_pass w st l t)) (fst (check_pass w st l t)))
     = Fulfilled \<Longrightarrow>
   check w st l t =
     (let rec = check w (settle w (display_new w (snd (check_pass w st l t))
                                     (fst (check_pass w st l t)))) None None;
          u = update w (fst (snd rec)) (Some (check_delta st l t))
      in (fst u, snd u, Suc (snd (snd rec))))"
  by (subst check.simps) (simp add: Let_def)

lemma check_pass_ends:
  "section_prev (vsection (hd (views st))) = None \<Longrightarrow>
   section_next (spine_length w) (vsection (last (views st))) = None \<Longrightarrow>
   snd (check_pass w st l t) = []"
  by (auto simp: check_pass_def Let_def check_append_def check_prepend_def views_last_def
        views_first_def split: list.splits option.splits)

lemmas example_check_simps = check_pass_def check_delta_def check_offset_def check_append_def
  check_prepend_def mgr_append_def mgr_prepend_def createView_def views_last_def views_first_def
  section_next_def section_prev_def new_promises_def promise_all_def view_display_def
  display_new_def settle_def truthy_num_def or_zero_def horizontal_def rtl_def
  writing_vertical_def raw_offset_def contentLength_def visibleLength_def
  example_start_def example_manager_def example_geometry_def example_view_def example_world_def
  Let_def update_eq sync_view_def started_promises_def run_handler_def update_offset_def
  view_show_def view_hide_def

text \<open>
  Claim C5. \<^verbatim>\<open>check\<close> and \<^verbatim>\<open>fill\<close> are total functions: their recursion
  is well-founded, because every pass that adds a view brings the window closer to
  the ends of the document. For a document of N sections and a window that makes
  sense for it, under any geometry, hints and render outcomes: one call of
  \<^verbatim>\<open>check\<close> makes at most N passes, nested ones included;
  \<^verbatim>\<open>fill\<close> makes at most N calls of \<^verbatim>\<open>check\<close>; when
  \<^verbatim>\<open>check\<close> is called again and again, one of the first N calls adds no view,
  resolves to \<^verbatim>\<open>false\<close> and only puts the visibility pass on the queue; and
  when the first view has no previous section and the last view has no next section,
  \<^verbatim>\<open>check\<close> adds no view and resolves to \<^verbatim>\<open>false\<close> at once.
\<close>

theorem check_fill_terminate:
  assumes ok: "window_ok w st"
  shows "snd (snd (check w st offsetLeft offsetTop)) \<le> spine_length w
     \<and> fst (fill w st) \<le> spine_length w
     \<and> (\<exists>k < spine_length w.
           check w ((check_again w ^^ k) st) None None
             = (RFalse,
                ((check_again w ^^ k) st)\<lparr>q := q ((check_again w ^^ k) st) @ [TaskUpdate]\<rparr>,
                1))
     \<and> (section_prev (vsection (hd (views st))) = None
          \<and> section_next (spine_length w) (vsection (last (views st))) = None
          \<longrightarrow> check w st offsetLeft offsetTop = (RFalse, st\<lparr>q := q st @ [TaskUpdate]\<rparr>, 1))"
proof -
  have g: "1 \<le> gap_left w st" "gap_left w st \<le> spine_length w"
    using window_ok_gap [OF ok] by simp_all
  have "1 \<le> gap_left w (fst (snd (check w st offsetLeft offsetTop)))"
    using window_ok_gap [OF window_ok_check [OF ok]] by simp
  with check_passes_gap [of w st offsetLeft offsetTop] g
  have a: "snd (snd (check w st offsetLeft offsetTop)) \<le> spine_length w" by simp
  have "1 \<le> gap_left w (snd (fill w st))"
    using window_ok_gap [OF window_ok_fill [OF ok]] by simp
  with fill_calls_gap [of w st] g
  have b: "fst (fill w st) \<le> spine_length w" by simp
  have "gap_left w st \<le> Suc (gap_left w st - 1)" by simp
  from converges_within [OF ok this]
  obtain k where k: "k \<le> gap_left w st - 1"
    "fst (check w ((check_again w ^^ k) st) None None) = RFalse" by blast
  from k(1) g have "k < spine_length w" by simp
  moreover from k(2) have "snd (check_pass w ((check_again w ^^ k) st) None None) = []"
    by (simp add: check_false_iff)
  then have "check w ((check_again w ^^ k) st) None None
             = (RFalse,
                ((check_again w ^^ k) st)\<lparr>q := q ((check_again w ^^ k) st) @ [TaskUpdate]\<rparr>,
                1)"
    by (rule check_no_growth)
  ultimately have c: "\<exists>k < spine_length w.
           check w ((check_again w ^^ k) st) None None
             = (RFalse,
                ((check_again w ^^ k) st)\<lparr>q := q ((check_again w ^^ k) st) @ [TaskUpdate]\<rparr>,
                1)" by blast
  have d: "section_prev (vsection (hd (views st))) = None
          \<and> section_next (spine_length w) (vsection (last (views st))) = None
          \<longrightarrow> check w st offsetLeft offsetTop = (RFalse, st\<lparr>q := q st @ [TaskUpdate]\<rparr>, 1)"
    using check_pass_ends [of st w offsetLeft offsetTop] check_no_growth [of w st offsetLeft offsetTop]
    by blast
  from a b c d show ?thesis by blast
qed

text \<open>
  Claim C5, witness: a document of five sections. From the window that holds
  section 2 only, one call of \<^verbatim>\<open>check\<close> makes two passes and leaves the
  sections 1, 2 and 3 in the window. The window that holds all five sections is at both
  ends of the document: \<^verbatim>\<open>check\<close> resolves to \<^verbatim>\<open>false\<close> in one pass.
\<close>

theorem check_fill_terminate_witness:
  "window_ok example_world example_start
   \<and> snd (snd (check example_world example_start None None)) \<le> 5
   \<and> fst (fill example_world example_start) \<le> 5
   \<and> (\<exists>k < 5. fst (check example_world ((check_again example_world ^^ k) example_start)
                     None None) = RFalse)
   \<and> check example_world (example_manager ''vertical'' ''ltr'' ''default'' False) None None
       = (RFalse,
          (example_manager ''vertical'' ''ltr'' ''default'' False)\<lparr>q := [TaskUpdate]\<rparr>, 1)"
proof -
  have ok1: "window_ok example_world example_start"
    by (simp add: window_ok_def example_start_def example_manager_def example_view_def
        example_world_def)
  have ok2: "window_ok example_world (example_manager ''vertical'' ''ltr'' ''default'' False)"
    by (simp add: window_ok_def example_manager_def example_view_def example_world_def)
  have n: "spine_length example_world = 5"
    by (simp add: example_world_def)
  have ends: "section_prev (vsection (hd (views (example_manager ''vertical'' ''ltr'' ''default'' False)))) = None
      \<and> section_next (spine_length example_world)
          (vsection (last (views (example_manager ''vertical'' ''ltr'' ''default'' False)))) = None"
    by (simp add: section_prev_def section_next_def example_manager_def example_view_def
        example_world_def)
  have q0: "q (example_manager ''vertical'' ''ltr'' ''default'' False) = []"
    by (simp add: example_manager_def)
  from check_fill_terminate [OF ok1, of None None] have
    "snd (snd (check example_world example_start None None)) \<le> 5"
    "fst (fill example_world example_start) \<le> 5"
    "\<exists>k < 5. fst (check example_world ((check_again example_world ^^ k) example_start)
                     None None) = RFalse"
    unfolding n by (simp, simp, metis fst_conv)
  moreover from check_fill_terminate [OF ok2, of None None] ends q0 have
    "check example_world (example_manager ''vertical'' ''ltr'' ''default'' False) None None
       = (RFalse,
          (example_manager ''vertical'' ''ltr'' ''default'' False)\<lparr>q := [TaskUpdate]\<rparr>, 1)"
    by simp
  ultimately show ?thesis using ok1 by simp
qed

text \<open>
  Claim C6, as amended. \<^verbatim>\<open>check\<close> resolves to \<^verbatim>\<open>false\<close> exactly when
  its pass adds no view, and then it only puts the visibility pass on the queue. When
  views were added it never resolves to a boolean: if one of the new views fails to
  render it resolves to the reason of the failure; otherwise it resolves to what the
  visibility pass \<^verbatim>\<open>update\<close>, run inline with the margin after the nested
  \<^verbatim>\<open>check\<close>, resolves to, which is \<^verbatim>\<open>undefined\<close> when that pass starts
  no display and the array of the started displays otherwise.
\<close>

theorem check_result:
  "(snd (check_pass w st l t) = []
      \<longrightarrow> check w st l t = (RFalse, st\<lparr>q := q st @ [TaskUpdate]\<rparr>, 1))
   \<and> (snd (check_pass w st l t) \<noteq> [] \<longrightarrow> fst (check w st l t) \<noteq> RFalse)
   \<and> (snd (check_pass w st l t) \<noteq> []
        \<and> promise_all (new_promises w (snd (check_pass w st l t)) (fst (check_pass w st l t)))
            = Rejected
      \<longrightarrow> fst (check w st l t) = RError)
   \<and> (snd (check_pass w st l t) \<noteq> []
        \<and> promise_all (new_promises w (snd (check_pass w st l t)) (fst (check_pass w st l t)))
            = Fulfilled
      \<longrightarrow> (let st4 = fst (snd (check w (settle w (display_new w (snd (check_pass w st l t))
                                                     (fst (check_pass w st l t)))) None None));
               d = check_delta st l t;
               started = filter (\<lambda>v. isVisible w (geom st4) v d d \<and> \<not> displayed v) (views st4)
           in fst (check w st l t) = fst (update w st4 (Some d))
              \<and> fst (check w st l t)
                  = (if started = [] then RUndefined else RArray (length started))))"
proof -
  have a: "snd (check_pass w st l t) = []
      \<longrightarrow> check w st l t = (RFalse, st\<lparr>q := q st @ [TaskUpdate]\<rparr>, 1)"
    using check_no_growth [of w st l t] by blast
  have b: "snd (check_pass w st l t) \<noteq> [] \<longrightarrow> fst (check w st l t) \<noteq> RFalse"
    using check_growth_result [of w st l t] by blast
  have c: "snd (check_pass w st l t) \<noteq> []
        \<and> promise_all (new_promises w (snd (check_pass w st l t)) (fst (check_pass w st l t)))
            = Rejected
      \<longrightarrow> fst (check w st l t) = RError"
    by (subst check.simps) (simp add: Let_def)
  have d: "snd (check_pass w st l t) \<noteq> []
        \<and> promise_all (new_promises w (snd (check_pass w st l t)) (fst (check_pass w st l t)))
            = Fulfilled
      \<longrightarrow> (let st4 = fst (snd (check w (settle w (display_new w (snd (check_pass w st l t))
                                                     (fst (check_pass w st l t)))) None None));
               d = check_delta st l t;
               started = filter (\<lambda>v. isVisible w (geom st4) v d d \<and> \<not> displayed v) (views st4)
           in fst (check w st l t) = fst (update w st4 (Some d))
              \<and> fst (check w st l t)
                  = (if started = [] then RUndefined else RArray (length started)))"
    using check_growth_eq [of w st l t]
    by (simp add: Let_def update_eq update_offset_def)
  from a b c d show ?thesis by blast
qed

text \<open>
  Claim C6, witness. From the window that holds section 2 only the pass adds the
  sections 3 and 1, which render, and the result is not \<^verbatim>\<open>false\<close>. From the
  window that holds section 1 only the pass adds section 0, which fails to render,
  and the result is the reason. The window that holds all five sections is not grown
  and the result is \<^verbatim>\<open>false\<close>.
\<close>

theorem check_result_witness:
  "fst (check example_world example_start None None) \<noteq> RFalse
   \<and> fst (check example_world example_start None None)
       = fst (update example_world
               (fst (snd (check example_world
                  (settle example_world
                     (display_new example_world
                        (snd (check_pass example_world example_start None None))
                        (fst (check_pass example_world example_start None None))))
                  None None)))
               (Some 500))
   \<and> fst (check example_world (example_start\<lparr>views := [example_view 1 True]\<rparr>) None None) = RError
   \<and> fst (check example_world (example_manager ''vertical'' ''ltr'' ''default'' False) None None)
       = RFalse"
proof -
  have g1: "snd (check_pass example_world example_start None None) \<noteq> []"
    by (simp add: example_check_simps)
  have f1: "promise_all (new_promises example_world
              (snd (check_pass example_world example_start None None))
              (fst (check_pass example_world example_start None None))) = Fulfilled"
    by (simp add: example_check_simps)
  have d1: "check_delta example_start None None = 500"
    by (simp add: example_check_simps)
  have g2: "snd (check_pass example_world (example_start\<lparr>views := [example_view 1 True]\<rparr>)
              None None) \<noteq> []"
    by (simp add: example_check_simps)
  have f2: "promise_all (new_promises example_world
              (snd (check_pass example_world (example_start\<lparr>views := [example_view 1 True]\<rparr>)
                     None None))
              (fst (check_pass example_world (example_start\<lparr>views := [example_view 1 True]\<rparr>)
                     None None))) = Rejected"
    by (simp add: example_check_simps)
  have g3: "snd (check_pass example_world
              (example_manager ''vertical'' ''ltr'' ''default'' False) None None) = []"
    by (simp add: example_check_simps)
  note r = check_result [of example_world example_start None None, unfolded Let_def]
  from r g1 have "fst (check example_world example_start None None) \<noteq> RFalse"
    by blast
  moreover from r g1 f1
  have "fst (check example_world example_start None None)
       = fst (update example_world
               (fst (snd (check example_world
                  (settle example_world
                     (display_new example_world
                        (snd (check_pass example_world example_start None None))
                        (fst (check_pass example_world example_start None None))))
                  None None)))
               (Some (check_delta example_start None None)))"
    by blast
  then have "fst (check example_world example_start None None)
       = fst (update example_world
               (fst (snd (check example_world
                  (settle example_world
                     (display_new example_world
                        (snd (check_pass example_world example_start None None))
                        (fst (check_pass example_world example_start None None))))
                  None None)))
               (Some 500))"
    by (simp only: d1)
  moreover from check_result [of example_world "example_start\<lparr>views := [example_view 1 True]\<rparr>"
      None None] g2 f2
  have "fst (check example_world (example_start\<lparr>views := [example_view 1 True]\<rparr>) None None) = RError"
    by simp
  moreover from check_result [of example_world
      "example_manager ''vertical'' ''ltr'' ''default'' False" None None] g3
  have "fst (check example_world (example_manager ''vertical'' ''ltr'' ''default'' False) None None)
       = RFalse"
    by simp
  ultimately show ?thesis by blast
qed

text \<open>
  Claim C6, counterexample to the claim as stated. From the window that holds
  section 2 only, \<^verbatim>\<open>check\<close> appends section 3 and prepends section 1, so the
  window is grown from one view to three; yet the call resolves to
  \<^verbatim>\<open>undefined\<close>, which is falsy, because the visibility pass that ends the call
  has no view left to display.
\<close>

theorem check_growth_falsy_counterexample:
  "length (views example_start) = 1
   \<and> snd (check_pass example_world example_start None None) \<noteq> []
   \<and> map vsection (views (fst (snd (check example_world example_start None None)))) = [1, 2, 3]
   \<and> fst (check example_world example_start None None) = RUndefined
   \<and> \<not> truthy (fst (check example_world example_start None None))"
  by (simp add: check.simps example_check_simps)

end
